theory Spec2Isabelle
  imports Complex_Main
begin

section \<open>JavaScript strings\<close>

text \<open>
  A JavaScript string is a sequence of UTF-16 code units; a code unit is modelled by its
  number. \<open>str\<close> turns an ASCII literal into such a sequence, so that the literals of
  \<^verbatim>\<open>index.js\<close> stay readable; code units outside ASCII are written as numbers
  (\<open>186\<close> is the masculine ordinal indicator, \<open>193\<close> is A with acute).
\<close>

type_synonym jsstring = "nat list"

definition str :: "string \<Rightarrow> jsstring" where
  "str s = map of_char s"

text \<open>
  The class \<^verbatim>\<open>\s\<close> of a regular expression and the characters removed by
  \<^verbatim>\<open>String.prototype.trim\<close> are the same set: WhiteSpace and LineTerminator of
  ECMAScript (TAB, LF, VT, FF, CR, SP, NBSP, U+1680, U+2000..U+200A, U+2028, U+2029,
  U+202F, U+205F, U+3000, U+FEFF).
\<close>

definition isWhiteSpace :: "nat \<Rightarrow> bool" where
  "isWhiteSpace c \<longleftrightarrow>
     c = 9 \<or> c = 10 \<or> c = 11 \<or> c = 12 \<or> c = 13 \<or> c = 32 \<or> c = 160 \<or> c = 5760 \<or>
     (8192 \<le> c \<and> c \<le> 8202) \<or> c = 8232 \<or> c = 8233 \<or> c = 8239 \<or> c = 8287 \<or>
     c = 12288 \<or> c = 65279"

definition trimStart :: "jsstring \<Rightarrow> jsstring" where
  "trimStart s = dropWhile isWhiteSpace s"

definition trimEnd :: "jsstring \<Rightarrow> jsstring" where
  "trimEnd s = rev (dropWhile isWhiteSpace (rev s))"

definition trim :: "jsstring \<Rightarrow> jsstring" where
  "trim s = trimEnd (trimStart s)"

text \<open>\<^verbatim>\<open>startsWith\<close>, \<^verbatim>\<open>endsWith\<close> and \<^verbatim>\<open>includes\<close> (here \<open>includes_js\<close>) of \<^verbatim>\<open>String.prototype\<close>.\<close>

definition startsWith :: "jsstring \<Rightarrow> jsstring \<Rightarrow> bool" where
  "startsWith s p \<longleftrightarrow> take (length p) s = p"


fun includes_js :: "jsstring \<Rightarrow> jsstring \<Rightarrow> bool" where
  "includes_js [] p = (p = [])"
| "includes_js (c # r) p = (startsWith (c # r) p \<or> includes_js r p)"

text \<open>The class \<^verbatim>\<open>\d\<close> of a regular expression without the unicode flag: the digits 0 to 9.\<close>

definition isDigit :: "nat \<Rightarrow> bool" where
  "isDigit c \<longleftrightarrow> 48 \<le> c \<and> c \<le> 57"

text \<open>No two adjacent whitespace characters; no whitespace at either end.\<close>

fun noDoubleSpace :: "jsstring \<Rightarrow> bool" where
  "noDoubleSpace [] = True"
| "noDoubleSpace [c] = True"
| "noDoubleSpace (c # d # r) = (\<not> (isWhiteSpace c \<and> isWhiteSpace d) \<and> noDoubleSpace (d # r))"

definition trimmed :: "jsstring \<Rightarrow> bool" where
  "trimmed s \<longleftrightarrow> s = [] \<or> (\<not> isWhiteSpace (hd s) \<and> \<not> isWhiteSpace (last s))"

text \<open>
  \<^verbatim>\<open>s.split(c)\<close> for a separator of one code unit: the pieces between the separators,
  in order; a string without the separator is its own single piece.
\<close>

fun splitOn :: "nat \<Rightarrow> jsstring \<Rightarrow> jsstring list" where
  "splitOn c [] = [[]]"
| "splitOn c (x # xs) =
     (let ps = splitOn c xs
      in if x = c then [] # ps else (x # hd ps) # tl ps)"

text \<open>
  Matching under the flag \<^verbatim>\<open>i\<close> (without the flag \<^verbatim>\<open>u\<close>): two code units match when
  their canonical forms, the uppercase forms, are equal; a code unit outside ASCII is never
  identified with an ASCII one. The patterns of the program hold ASCII characters and
  the letters U+00E7, U+00E3, U+00ED and U+00BA; for these a code unit of the input matches
  exactly when \<open>canonUnit\<close> agrees: a..z and U+00E0..U+00FE except the division sign
  U+00F7 move down by 32.
\<close>

definition canonUnit :: "nat \<Rightarrow> nat" where
  "canonUnit c = (if (97 \<le> c \<and> c \<le> 122) \<or> (224 \<le> c \<and> c \<le> 254 \<and> c \<noteq> 247) then c - 32 else c)"

text \<open>\<open>startsWithCI s p\<close>: \<open>s\<close> starts with the pattern text \<open>p\<close>, compared under the flag.\<close>

definition startsWithCI :: "jsstring \<Rightarrow> jsstring \<Rightarrow> bool" where
  "startsWithCI s p \<longleftrightarrow>
     length p \<le> length s \<and> map canonUnit (take (length p) s) = map canonUnit p"

text \<open>\<^verbatim>\<open>s.replace(a, b)\<close> for strings \<open>a\<close>, \<open>b\<close> of one code unit: the first \<open>a\<close> becomes \<open>b\<close>.\<close>

fun replaceFirstUnit :: "nat \<Rightarrow> nat \<Rightarrow> jsstring \<Rightarrow> jsstring" where
  "replaceFirstUnit a b [] = []"
| "replaceFirstUnit a b (c # r) = (if c = a then b # r else c # replaceFirstUnit a b r)"

text \<open>
  \<^verbatim>\<open>!v\<close> for a value that is a string or absent (\<^verbatim>\<open>undefined\<close>, \<^verbatim>\<open>null\<close>, a missing
  element): it is absent or the empty string.
\<close>

definition falsy :: "jsstring option \<Rightarrow> bool" where
  "falsy v \<longleftrightarrow> v = None \<or> v = Some []"

text \<open>\<^verbatim>\<open>xs.join(sep)\<close>.\<close>

fun join :: "jsstring \<Rightarrow> jsstring list \<Rightarrow> jsstring" where
  "join sep [] = []"
| "join sep [x] = x"
| "join sep (x # y # r) = x @ sep @ join sep (y # r)"

section \<open>The text normalizer: \<^verbatim>\<open>norm\<close>\<close>

subsection \<open>\<^verbatim>\<open>String.prototype.normalize("NFD")\<close>\<close>

text \<open>
  Canonical decomposition has two steps: every code point is replaced by its full
  canonical decomposition, and then every run of combining marks is put in canonical
  order, by a stable sort on the canonical combining class (a character of class 0 is a
  starter and is never moved or passed).

  The two tables below are those of the Unicode Character Database for the code points
  U+0000..U+00FF (Basic Latin, Latin-1 Supplement), U+0300..U+036F (Combining Diacritical
  Marks, the range the normalizer deletes) and U+0590..U+05FF (Hebrew, whose points are
  the marks commonly written with U+034F). Outside these ranges the model leaves a code
  unit as it is, and the theorems about \<open>norm_js\<close> speak of strings inside them.
\<close>

definition decompTable :: "(nat \<times> nat list) list" where
  "decompTable =
    [(192, [65, 768]), (193, [65, 769]), (194, [65, 770]), (195, [65, 771]),
     (196, [65, 776]), (197, [65, 778]), (199, [67, 807]), (200, [69, 768]),
     (201, [69, 769]), (202, [69, 770]), (203, [69, 776]), (204, [73, 768]),
     (205, [73, 769]), (206, [73, 770]), (207, [73, 776]), (209, [78, 771]),
     (210, [79, 768]), (211, [79, 769]), (212, [79, 770]), (213, [79, 771]),
     (214, [79, 776]), (217, [85, 768]), (218, [85, 769]), (219, [85, 770]),
     (220, [85, 776]), (221, [89, 769]), (224, [97, 768]), (225, [97, 769]),
     (226, [97, 770]), (227, [97, 771]), (228, [97, 776]), (229, [97, 778]),
     (231, [99, 807]), (232, [101, 768]), (233, [101, 769]), (234, [101, 770]),
     (235, [101, 776]), (236, [105, 768]), (237, [105, 769]), (238, [105, 770]),
     (239, [105, 776]), (241, [110, 771]), (242, [111, 768]), (243, [111, 769]),
     (244, [111, 770]), (245, [111, 771]), (246, [111, 776]), (249, [117, 768]),
     (250, [117, 769]), (251, [117, 770]), (252, [117, 776]), (253, [121, 769]),
     (255, [121, 776]), (832, [768]), (833, [769]), (835, [787]), (836, [776, 769])]"

definition decomp :: "nat \<Rightarrow> nat list" where
  "decomp c = (case map_of decompTable c of None \<Rightarrow> [c] | Some d \<Rightarrow> d)"

text \<open>The combining classes that are not 0, as (first, last, class).\<close>

definition cccTable :: "(nat \<times> nat \<times> nat) list" where
  "cccTable =
    [(768, 788, 230), (789, 789, 232), (790, 793, 220), (794, 794, 232), (795, 795, 216),
     (796, 800, 220), (801, 802, 202), (803, 806, 220), (807, 808, 202), (809, 819, 220),
     (820, 824, 1), (825, 828, 220), (829, 836, 230), (837, 837, 240), (838, 838, 230),
     (839, 841, 220), (842, 844, 230), (845, 846, 220), (848, 850, 230), (851, 854, 220),
     (855, 855, 230), (856, 856, 232), (857, 858, 220), (859, 859, 230), (860, 860, 233),
     (861, 862, 234), (863, 863, 233), (864, 865, 234), (866, 866, 233), (867, 879, 230),
     (1425, 1425, 220), (1426, 1429, 230), (1430, 1430, 220), (1431, 1433, 230),
     (1434, 1434, 222), (1435, 1435, 220), (1436, 1441, 230), (1442, 1447, 220),
     (1448, 1449, 230), (1450, 1450, 220), (1451, 1452, 230), (1453, 1453, 222),
     (1454, 1454, 228), (1455, 1455, 230), (1456, 1456, 10), (1457, 1457, 11),
     (1458, 1458, 12), (1459, 1459, 13), (1460, 1460, 14), (1461, 1461, 15),
     (1462, 1462, 16), (1463, 1463, 17), (1464, 1464, 18), (1465, 1466, 19),
     (1467, 1467, 20), (1468, 1468, 21), (1469, 1469, 22), (1471, 1471, 23),
     (1473, 1473, 24), (1474, 1474, 25), (1476, 1476, 230), (1477, 1477, 220),
     (1479, 1479, 18)]"

fun lookupRange :: "(nat \<times> nat \<times> nat) list \<Rightarrow> nat \<Rightarrow> nat" where
  "lookupRange [] c = 0"
| "lookupRange ((lo, hi, k) # t) c = (if lo \<le> c \<and> c \<le> hi then k else lookupRange t c)"

definition ccc :: "nat \<Rightarrow> nat" where
  "ccc c = lookupRange cccTable c"

text \<open>
  Canonical ordering. The output so far is kept reversed; a mark moves left past the marks
  of a greater class, and stops at a starter or at a mark of the same or a smaller class.
\<close>

fun insertMark :: "nat \<Rightarrow> nat list \<Rightarrow> nat list" where
  "insertMark c [] = [c]"
| "insertMark c (b # bs) =
     (if ccc c \<noteq> 0 \<and> ccc c < ccc b then b # insertMark c bs else c # b # bs)"

definition canonicalOrder :: "jsstring \<Rightarrow> jsstring" where
  "canonicalOrder s = rev (foldl (\<lambda>acc c. insertMark c acc) [] s)"

definition normalizeNFD :: "jsstring \<Rightarrow> jsstring" where
  "normalizeNFD s = canonicalOrder (concat (map decomp s))"

subsection \<open>\<^verbatim>\<open>String.prototype.toLowerCase\<close>\<close>

text \<open>
  In the ranges above the lowercase mapping is one code unit for one code unit and does
  not depend on the context: A..Z and U+00C0..U+00DE except the multiplication sign
  U+00D7 move up by 32, everything else stays.
\<close>

definition lowerUnit :: "nat \<Rightarrow> nat" where
  "lowerUnit c = (if (65 \<le> c \<and> c \<le> 90) \<or> (192 \<le> c \<and> c \<le> 222 \<and> c \<noteq> 215) then c + 32 else c)"

definition toLowerCase :: "jsstring \<Rightarrow> jsstring" where
  "toLowerCase s = map lowerUnit s"

subsection \<open>\<^verbatim>\<open>norm\<close>\<close>

text \<open>\<^verbatim>\<open>.replace(/[\u0300-\u036f]/g, "")\<close>: the code units U+0300 to U+036F are deleted.\<close>

definition isMark :: "nat \<Rightarrow> bool" where
  "isMark c \<longleftrightarrow> 768 \<le> c \<and> c \<le> 879"

definition stripMarks :: "jsstring \<Rightarrow> jsstring" where
  "stripMarks s = filter (\<lambda>c. \<not> isMark c) s"

text \<open>\<^verbatim>\<open>.replace(/\s+/g, " ")\<close>: every maximal run of whitespace becomes one space.\<close>

function collapseRuns1 :: "jsstring \<Rightarrow> jsstring" where
  "collapseRuns1 [] = []"
| "collapseRuns1 (c # r) =
     (if isWhiteSpace c then 32 # collapseRuns1 (dropWhile isWhiteSpace r)
      else c # collapseRuns1 r)"
  by pat_completeness auto
termination
  by (relation "measure length") (auto simp: length_dropWhile_le less_Suc_eq_le)

text \<open>
  \<^verbatim>\<open>norm(s)\<close>, here \<open>norm_js\<close>. The argument is a string or absent (\<^verbatim>\<open>undefined\<close>, \<^verbatim>\<open>null\<close>);
  \<^verbatim>\<open>(s || "")\<close> turns an absent value into the empty string.
\<close>

definition norm_js :: "jsstring option \<Rightarrow> jsstring" where
  "norm_js s =
     trim (collapseRuns1 (toLowerCase (stripMarks (normalizeNFD
       (case s of None \<Rightarrow> [] | Some t \<Rightarrow> t)))))"






section \<open>The labelled attributes of the detail page\<close>

text \<open>
  The predicate of \<^verbatim>\<open>arr.find\<close> in \<^verbatim>\<open>getValueAfterLabel\<close> and
  \<^verbatim>\<open>getValueAfterEqOrColon\<close>: the normalized line starts with or contains the
  normalized label.
\<close>

definition labelMatches :: "jsstring \<Rightarrow> jsstring \<Rightarrow> bool" where
  "labelMatches label t =
     (let lab = norm_js (Some label); n = norm_js (Some t)
      in startsWith n lab \<or> includes_js n lab)"

text \<open>
  \<^verbatim>\<open>getValueAfterLabel\<close>. \<^verbatim>\<open>if (!row) return ""\<close> is taken when no line matches and
  when the line found is the empty string; \<^verbatim>\<open>parts[1] ? ... : ""\<close> takes the second
  branch when there is no second piece and when it is empty. The code unit 58 is the colon.
\<close>

definition getValueAfterLabel :: "jsstring list \<Rightarrow> jsstring \<Rightarrow> jsstring" where
  "getValueAfterLabel arr label =
     (case List.find (labelMatches label) arr of
        None \<Rightarrow> []
      | Some row \<Rightarrow>
          if row = [] then []
          else (let parts = splitOn 58 row
                in if 1 < length parts \<and> parts ! 1 \<noteq> [] then trim (parts ! 1) else []))"

text \<open>
  \<^verbatim>\<open>getValueAfterEqOrColon\<close>: the separator is the equals sign (61) if the line has one,
  else the colon; \<^verbatim>\<open>.replace(/^\s*\*?\s*/, "")\<close> removes leading whitespace, one asterisk
  (42) and the whitespace after it.
\<close>

definition stripAsterisk :: "jsstring \<Rightarrow> jsstring" where
  "stripAsterisk s =
     (let t = dropWhile isWhiteSpace s
      in if t \<noteq> [] \<and> hd t = 42 then dropWhile isWhiteSpace (tl t) else t)"

definition getValueAfterEqOrColon :: "jsstring list \<Rightarrow> jsstring \<Rightarrow> jsstring" where
  "getValueAfterEqOrColon arr label =
     (case List.find (labelMatches label) arr of
        None \<Rightarrow> []
      | Some row \<Rightarrow>
          if row = [] then []
          else (let parts = (if 61 \<in> set row then splitOn 61 row else splitOn 58 row)
                in if 1 < length parts \<and> parts ! 1 \<noteq> [] then trim (stripAsterisk (parts ! 1))
                   else []))"




section \<open>The address decomposition of \<^verbatim>\<open>extrairDetalhesImovel\<close>\<close>

text \<open>
  \<^verbatim>\<open>[A-Z]\<close> under the flag \<^verbatim>\<open>i\<close> matches the 52 ASCII letters; on these
  \<^verbatim>\<open>toUpperCase\<close> moves a..z down by 32.
\<close>

definition upperAscii :: "nat \<Rightarrow> nat" where
  "upperAscii c = (if 97 \<le> c \<and> c \<le> 122 then c - 32 else c)"

definition isAsciiLetter :: "nat \<Rightarrow> bool" where
  "isAsciiLetter c \<longleftrightarrow> (65 \<le> c \<and> c \<le> 90) \<or> (97 \<le> c \<and> c \<le> 122)"

text \<open>
  \<^verbatim>\<open>/CEP:\s*([\d\-]+)/i\<close> at the start of a string: the length of the match and group 1.
  Whitespace and the group are taken greedily; giving characters back cannot help, since
  what follows each of them is of another class.
\<close>

definition isCepChar :: "nat \<Rightarrow> bool" where
  "isCepChar c \<longleftrightarrow> isDigit c \<or> c = 45"

definition matchCepAt :: "jsstring \<Rightarrow> (nat \<times> jsstring) option" where
  "matchCepAt s =
     (if startsWithCI s (str ''CEP:'') then
        (let r = dropWhile isWhiteSpace (drop 4 s);
             g = takeWhile isCepChar r
         in if g \<noteq> [] then Some (length s - length r + length g, g) else None)
      else None)"

text \<open>\<^verbatim>\<open>e.match(...)\<close>: the leftmost match, as (text before it, the match, group 1).\<close>

fun matchCep :: "jsstring \<Rightarrow> jsstring \<Rightarrow> (jsstring \<times> jsstring \<times> jsstring) option" where
  "matchCep pre [] = None"
| "matchCep pre (c # r) =
     (case matchCepAt (c # r) of
        Some (n, g) \<Rightarrow> Some (pre, take n (c # r), g)
      | None \<Rightarrow> matchCep (pre @ [c]) r)"

text \<open>
  \<^verbatim>\<open>s.replace(p, "")\<close> for a string pattern \<open>p\<close>: the first occurrence of \<open>p\<close> is
  removed.
\<close>

fun removeFirst :: "jsstring \<Rightarrow> jsstring \<Rightarrow> jsstring" where
  "removeFirst p [] = []"
| "removeFirst p (c # r) =
     (if startsWith (c # r) p then drop (length p) (c # r) else c # removeFirst p r)"

text \<open>
  \<^verbatim>\<open>.replace(/\s*,\s*$/, "")\<close> and \<^verbatim>\<open>.replace(/\-\s*$/i, "")\<close>: the expression matches
  only when the last character that is not whitespace is the comma (44) or the hyphen
  (45); the match then runs from the whitespace before the comma, or from the hyphen, to
  the end.
\<close>

definition removeTrailingComma :: "jsstring \<Rightarrow> jsstring" where
  "removeTrailingComma s =
     (let t = trimEnd s in if t \<noteq> [] \<and> last t = 44 then trimEnd (butlast t) else s)"

definition removeTrailingHyphen :: "jsstring \<Rightarrow> jsstring" where
  "removeTrailingHyphen s =
     (let t = trimEnd s in if t \<noteq> [] \<and> last t = 45 then butlast t else s)"

text \<open>
  \<^verbatim>\<open>/N[o.]?\s*([\d]+)/i\<close> (\<open>o\<close> stands for the ordinal indicator), where the class holds the ordinal indicator (186) and
  the full stop (46): group 1 of the leftmost match.
\<close>

definition matchNumAt :: "jsstring \<Rightarrow> jsstring option" where
  "matchNumAt s =
     (if s \<noteq> [] \<and> (hd s = 78 \<or> hd s = 110) then
        (let r = tl s;
             r1 = (if r \<noteq> [] \<and> (hd r = 186 \<or> hd r = 46) then tl r else r);
             g = takeWhile isDigit (dropWhile isWhiteSpace r1)
         in if g \<noteq> [] then Some g else None)
      else None)"

fun matchNum :: "jsstring \<Rightarrow> jsstring option" where
  "matchNum [] = None"
| "matchNum (c # r) =
     (case matchNumAt (c # r) of Some g \<Rightarrow> Some g | None \<Rightarrow> matchNum r)"

text \<open>
  \<^verbatim>\<open>/^(.+?)\s*-\s*([A-Z]{2})$/i\<close>. \<open>matchUf r\<close> matches the part after group 1 against
  the whole rest \<open>r\<close> of the string and gives group 2. Group 1 is lazy: it is the
  shortest non-empty prefix without a line terminator whose rest matches.
\<close>

definition isLineTerminator :: "nat \<Rightarrow> bool" where
  "isLineTerminator c \<longleftrightarrow> c = 10 \<or> c = 13 \<or> c = 8232 \<or> c = 8233"

definition matchUf :: "jsstring \<Rightarrow> jsstring option" where
  "matchUf r =
     (let r1 = dropWhile isWhiteSpace r
      in if r1 \<noteq> [] \<and> hd r1 = 45 then
           (let r2 = dropWhile isWhiteSpace (tl r1)
            in if length r2 = 2 \<and> isAsciiLetter (r2 ! 0) \<and> isAsciiLetter (r2 ! 1)
               then Some r2 else None)
         else None)"

fun matchCidadeUf :: "jsstring \<Rightarrow> jsstring \<Rightarrow> (jsstring \<times> jsstring) option" where
  "matchCidadeUf pre [] = None"
| "matchCidadeUf pre (c # r) =
     (if isLineTerminator c then None
      else (case matchUf r of
              Some uf \<Rightarrow> Some (pre @ [c], uf)
            | None \<Rightarrow> matchCidadeUf (pre @ [c]) r))"

record endereco =
  enderecoLogradouro :: jsstring
  enderecoNumero :: jsstring
  enderecoBairroTexto :: jsstring
  enderecoCep :: jsstring
  enderecoCidadeTexto :: jsstring
  enderecoEstadoTexto :: jsstring

text \<open>
  The block \<^verbatim>\<open>5.3) Quebra do endereco\<close> of the page evaluation, as a function of
  \<^verbatim>\<open>enderecoCompleto\<close>. Each assignment of the source is one field below; a field the
  source does not assign stays the empty string.
\<close>

definition quebraEndereco :: "jsstring \<Rightarrow> endereco" where
  "quebraEndereco enderecoCompleto =
     (if enderecoCompleto = [] then
        \<lparr>enderecoLogradouro = [], enderecoNumero = [], enderecoBairroTexto = [],
         enderecoCep = [], enderecoCidadeTexto = [], enderecoEstadoTexto = []\<rparr>
      else
        (let cepMatch = matchCep [] enderecoCompleto;
             e = (case cepMatch of
                    None \<Rightarrow> enderecoCompleto
                  | Some (_, m0, _) \<Rightarrow> removeTrailingComma (removeFirst m0 enderecoCompleto));
             parts = filter (\<lambda>p. p \<noteq> []) (map trim (splitOn 44 e));
             mCidadeUf = (if 4 \<le> length parts then matchCidadeUf [] (last parts) else None)
         in \<lparr>enderecoLogradouro = (if 1 \<le> length parts then parts ! 0 else []),
             enderecoNumero =
               (if 2 \<le> length parts then
                  (case matchNum (parts ! 1) of None \<Rightarrow> [] | Some g \<Rightarrow> trim g)
                else []),
             enderecoBairroTexto =
               (if 3 \<le> length parts then trim (removeTrailingHyphen (parts ! 2)) else []),
             enderecoCep = (case cepMatch of None \<Rightarrow> [] | Some (_, _, g) \<Rightarrow> trim g),
             enderecoCidadeTexto =
               (if 4 \<le> length parts then
                  (case mCidadeUf of None \<Rightarrow> last parts | Some (cidade, _) \<Rightarrow> trim cidade)
                else []),
             enderecoEstadoTexto =
               (case mCidadeUf of None \<Rightarrow> [] | Some (_, uf) \<Rightarrow> map upperAscii uf)\<rparr>))"

text \<open>The address of the claim; 186 is the ordinal indicator after \<^verbatim>\<open>N\<close>.\<close>

definition endereco_exemplo :: jsstring where
  "endereco_exemplo =
     str ''Rua A, N'' @ [186] @ str '' 123, Bairro B, CEP: 12345-000, Cidade C - RO''"

section \<open>JavaScript numbers\<close>

text \<open>
  A Number is an IEEE 754 binary64 value. The finite ones are modelled by the rational
  they denote (the two zeros are one value here: the program never divides by a zero and
  prints both the same way), next to the two infinities and NaN.
\<close>

datatype jsnum = Fin rat | PosInf | NegInf | NaN

text \<open>
  Rounding a rational to binary64, to nearest with ties to even. \<open>ilog2 a\<close> is the
  exponent \<open>e\<close> with \<open>2\<^sup>e \<le> a < 2\<^sup>e\<^sup>+\<^sup>1\<close>; the unit in the last place is
  \<open>2\<^sup>e\<^sup>-\<^sup>5\<^sup>2\<close>, and \<open>2\<^sup>-\<^sup>1\<^sup>0\<^sup>7\<^sup>4\<close> in the subnormal range; a result of \<open>2\<^sup>1\<^sup>0\<^sup>2\<^sup>4\<close> or more
  overflows to an infinity.
\<close>

fun bitLength :: "nat \<Rightarrow> nat" where
  "bitLength n = (if n = 0 then 0 else Suc (bitLength (n div 2)))"

declare bitLength.simps [simp del]

definition ilog2 :: "rat \<Rightarrow> int" where
  "ilog2 a =
     (let (n, d) = quotient_of a;
          k = int (bitLength (nat n)) - int (bitLength (nat d))
      in if 2 powi k \<le> a then k else k - 1)"

definition roundHalfEven :: "rat \<Rightarrow> int" where
  "roundHalfEven x =
     (let f = \<lfloor>x\<rfloor>; r = x - of_int f
      in if r < 1 / 2 then f else if 1 / 2 < r then f + 1 else if even f then f else f + 1)"

definition roundDouble :: "rat \<Rightarrow> jsnum" where
  "roundDouble q =
     (if q = 0 then Fin 0
      else
        (let a = \<bar>q\<bar>;
             qe = max (ilog2 a - 52) (- 1074);
             v = of_int (roundHalfEven (a / 2 powi qe)) * 2 powi qe
         in if 2 ^ 1024 \<le> v then (if q < 0 then NegInf else PosInf)
            else Fin (if q < 0 then - v else v)))"

subsection \<open>Arithmetic and comparison\<close>

text \<open>
  \<^verbatim>\<open>a - b\<close>, \<^verbatim>\<open>a * b\<close>, \<^verbatim>\<open>a / b\<close> and \<^verbatim>\<open>a < b\<close> of IEEE 754: the exact result rounded,
  NaN for an undefined one, and every comparison with NaN false.
\<close>

fun num_neg :: "jsnum \<Rightarrow> jsnum" where
  "num_neg (Fin x) = Fin (- x)"
| "num_neg PosInf = NegInf"
| "num_neg NegInf = PosInf"
| "num_neg NaN = NaN"

fun num_sub :: "jsnum \<Rightarrow> jsnum \<Rightarrow> jsnum" where
  "num_sub NaN b = NaN"
| "num_sub a NaN = NaN"
| "num_sub (Fin x) (Fin y) = roundDouble (x - y)"
| "num_sub (Fin x) PosInf = NegInf"
| "num_sub (Fin x) NegInf = PosInf"
| "num_sub PosInf PosInf = NaN"
| "num_sub PosInf b = PosInf"
| "num_sub NegInf NegInf = NaN"
| "num_sub NegInf b = NegInf"

fun num_mul :: "jsnum \<Rightarrow> jsnum \<Rightarrow> jsnum" where
  "num_mul NaN b = NaN"
| "num_mul a NaN = NaN"
| "num_mul (Fin x) (Fin y) = roundDouble (x * y)"
| "num_mul (Fin x) PosInf = (if x = 0 then NaN else if 0 < x then PosInf else NegInf)"
| "num_mul (Fin x) NegInf = (if x = 0 then NaN else if 0 < x then NegInf else PosInf)"
| "num_mul PosInf (Fin y) = (if y = 0 then NaN else if 0 < y then PosInf else NegInf)"
| "num_mul NegInf (Fin y) = (if y = 0 then NaN else if 0 < y then NegInf else PosInf)"
| "num_mul PosInf PosInf = PosInf"
| "num_mul PosInf NegInf = NegInf"
| "num_mul NegInf PosInf = NegInf"
| "num_mul NegInf NegInf = PosInf"

text \<open>
  Division. A zero divisor is taken as the positive zero; the only division of the
  program is guarded by \<^verbatim>\<open>vAval > 0\<close>.
\<close>

fun num_div :: "jsnum \<Rightarrow> jsnum \<Rightarrow> jsnum" where
  "num_div NaN b = NaN"
| "num_div a NaN = NaN"
| "num_div (Fin x) (Fin y) =
     (if y = 0 then (if x = 0 then NaN else if 0 < x then PosInf else NegInf)
      else roundDouble (x / y))"
| "num_div (Fin x) PosInf = Fin 0"
| "num_div (Fin x) NegInf = Fin 0"
| "num_div PosInf (Fin y) = (if 0 \<le> y then PosInf else NegInf)"
| "num_div NegInf (Fin y) = (if 0 \<le> y then NegInf else PosInf)"
| "num_div PosInf b = NaN"
| "num_div NegInf b = NaN"

fun num_less :: "jsnum \<Rightarrow> jsnum \<Rightarrow> bool" where
  "num_less NaN b = False"
| "num_less a NaN = False"
| "num_less (Fin x) (Fin y) = (x < y)"
| "num_less (Fin x) PosInf = True"
| "num_less (Fin x) NegInf = False"
| "num_less PosInf b = False"
| "num_less NegInf NegInf = False"
| "num_less NegInf b = True"

text \<open>\<^verbatim>\<open>Math.min(...xs)\<close>: \<^verbatim>\<open>Infinity\<close> for no argument, NaN if an argument is NaN.\<close>

definition min2 :: "jsnum \<Rightarrow> jsnum \<Rightarrow> jsnum" where
  "min2 a b = (if a = NaN \<or> b = NaN then NaN else if num_less b a then b else a)"

definition mathMin :: "jsnum list \<Rightarrow> jsnum" where
  "mathMin xs = foldl min2 PosInf xs"

subsection \<open>\<^verbatim>\<open>parseFloat\<close>\<close>

definition digitsVal :: "jsstring \<Rightarrow> nat" where
  "digitsVal ds = foldl (\<lambda>a c. 10 * a + (c - 48)) 0 ds"

text \<open>
  The exponent part \<^verbatim>\<open>e\<close>, sign, digits at the start of \<open>r\<close>, if there is one: its
  value, and 0 otherwise.
\<close>

definition exponentPart :: "jsstring \<Rightarrow> int" where
  "exponentPart r =
     (if r \<noteq> [] \<and> (hd r = 101 \<or> hd r = 69) then
        (let r1 = tl r;
             neg = (r1 \<noteq> [] \<and> hd r1 = 45);
             r2 = (if r1 \<noteq> [] \<and> (hd r1 = 45 \<or> hd r1 = 43) then tl r1 else r1);
             ds = takeWhile isDigit r2
         in if ds = [] then 0 else if neg then - int (digitsVal ds) else int (digitsVal ds))
      else 0)"

text \<open>
  \<^verbatim>\<open>parseFloat\<close>: leading whitespace is skipped, then the longest prefix that is a decimal
  literal (sign, \<^verbatim>\<open>Infinity\<close> or digits with an optional fraction and exponent) is read
  and its value rounded; NaN if there is no such prefix.
\<close>

definition parseFloat :: "jsstring \<Rightarrow> jsnum" where
  "parseFloat s =
     (let t = dropWhile isWhiteSpace s;
          neg = (t \<noteq> [] \<and> hd t = 45);
          u = (if t \<noteq> [] \<and> (hd t = 45 \<or> hd t = 43) then tl t else t)
      in if startsWith u (str ''Infinity'') then (if neg then NegInf else PosInf)
         else
           (let ip = takeWhile isDigit u;
                r = dropWhile isDigit u;
                dot = (r \<noteq> [] \<and> hd r = 46);
                fp = (if dot then takeWhile isDigit (tl r) else []);
                r' = (if dot then dropWhile isDigit (tl r) else r)
            in if ip = [] \<and> fp = [] then NaN
               else
                 (let mv = of_nat (digitsVal (ip @ fp)) * 10 powi (exponentPart r' - int (length fp))
                  in roundDouble (if neg then - mv else mv))))"

subsection \<open>\<^verbatim>\<open>Number.prototype.toFixed(2)\<close>\<close>

text \<open>The decimal digits of a natural number, \<^verbatim>\<open>0\<close> for zero.\<close>

fun decimalDigits :: "nat \<Rightarrow> jsstring" where
  "decimalDigits n = (if n < 10 then [48 + n] else decimalDigits (n div 10) @ [48 + n mod 10])"

declare decimalDigits.simps [simp del]

text \<open>
  For a value of \<open>10\<^sup>2\<^sup>1\<close> or more \<^verbatim>\<open>toFixed\<close> gives what \<^verbatim>\<open>String\<close> gives: the shortest
  digit string \<open>s\<close> that, scaled by a power of ten, rounds to the value (the nearest such
  string if there are two, the even one if they are equally near), in exponent notation.
  Such a value is an integer of at least 22 digits. \<open>tryDigits a k\<close> looks for a string
  of \<open>k\<close> digits, and \<open>shortest a k\<close> tries the lengths \<open>k, k + 1, ...\<close> up to 17, which
  always suffices for binary64; both give the digits and the decimal exponent.
\<close>

definition tryDigits :: "rat \<Rightarrow> nat \<Rightarrow> (jsstring \<times> nat) option" where
  "tryDigits a k =
     (let N = nat \<lfloor>a\<rfloor>;
          d = length (decimalDigits N);
          p = 10 ^ (d - k);
          lo = N div p;
          hi = lo + 1;
          okLo = (roundDouble (of_nat (lo * p)) = Fin a);
          okHi = (roundDouble (of_nat (hi * p)) = Fin a);
          nearLo = (a - of_nat (lo * p) < of_nat (hi * p) - a \<or>
                    (a - of_nat (lo * p) = of_nat (hi * p) - a \<and> even lo));
          s = (if okLo \<and> (\<not> okHi \<or> nearLo) then lo else hi)
      in if okLo \<or> okHi then
           Some (if s = 10 ^ k then ([49], d) else (decimalDigits s, d - 1))
         else None)"

function shortest :: "rat \<Rightarrow> nat \<Rightarrow> jsstring \<times> nat" where
  "shortest a k =
     (case tryDigits a k of
        Some r \<Rightarrow> r
      | None \<Rightarrow>
          if 17 \<le> k then (decimalDigits (nat \<lfloor>a\<rfloor>), length (decimalDigits (nat \<lfloor>a\<rfloor>)) - 1)
          else shortest a (Suc k))"
  by pat_completeness auto
termination
  by (relation "measure (\<lambda>(a, k). 17 - k)") auto

declare shortest.simps [simp del]

definition toStringLarge :: "rat \<Rightarrow> jsstring" where
  "toStringLarge a =
     (let (ds, ex) = shortest a 1
      in (if length ds = 1 then ds else hd ds # 46 # tl ds) @ str ''e+'' @ decimalDigits ex)"

text \<open>
  \<^verbatim>\<open>x.toFixed(2)\<close>: for a finite value below \<open>10\<^sup>2\<^sup>1\<close>, the integer \<open>n\<close> nearest to
  \<open>100 x\<close> (the larger one of two) written with a point before its last two digits.
\<close>

definition toFixed2 :: "jsnum \<Rightarrow> jsstring" where
  "toFixed2 x =
     (case x of
        NaN \<Rightarrow> str ''NaN''
      | PosInf \<Rightarrow> str ''Infinity''
      | NegInf \<Rightarrow> str ''-Infinity''
      | Fin q \<Rightarrow>
          (let a = \<bar>q\<bar>;
               m = (if 10 ^ 21 \<le> a then toStringLarge a
                    else
                      (let ds = decimalDigits (nat \<lfloor>a * 100 + 1 / 2\<rfloor>);
                           ds' = replicate (3 - length ds) 48 @ ds
                       in take (length ds' - 2) ds' @ [46] @ drop (length ds' - 2) ds'))
           in (if q < 0 then [45] else []) @ m))"

section \<open>The monetary values of \<^verbatim>\<open>extrairDetalhesImovel\<close>\<close>

text \<open>
  The four regular expressions have the same shape: pieces of text, each followed by
  \<^verbatim>\<open>\s*\<close>, and then the group \<^verbatim>\<open>([\d\.,]+)\<close>. \<open>matchSegs\<close> matches the pieces at the
  start of a string and gives the rest; whitespace is taken greedily, and giving some back
  cannot help since no piece and no group starts with whitespace.
\<close>

definition isValorChar :: "nat \<Rightarrow> bool" where
  "isValorChar c \<longleftrightarrow> isDigit c \<or> c = 46 \<or> c = 44"

fun matchSegs :: "jsstring list \<Rightarrow> jsstring \<Rightarrow> jsstring option" where
  "matchSegs [] s = Some s"
| "matchSegs (p # ps) s =
     (if startsWithCI s p then matchSegs ps (dropWhile isWhiteSpace (drop (length p) s))
      else None)"

definition matchValorAt :: "jsstring list \<Rightarrow> jsstring \<Rightarrow> jsstring option" where
  "matchValorAt segs s =
     (case matchSegs segs s of
        None \<Rightarrow> None
      | Some r \<Rightarrow> (let g = takeWhile isValorChar r in if g \<noteq> [] then Some g else None))"

text \<open>\<^verbatim>\<open>text.match(...)\<close>: group 1 of the leftmost match.\<close>

fun matchValor :: "jsstring list \<Rightarrow> jsstring \<Rightarrow> jsstring option" where
  "matchValor segs [] = None"
| "matchValor segs (c # r) =
     (case matchValorAt segs (c # r) of Some g \<Rightarrow> Some g | None \<Rightarrow> matchValor segs r)"

text \<open>
  The pieces of the four expressions; 231, 227, 237 and 186 are c with cedilla, a with
  tilde, i with acute and the ordinal indicator.
  \<^item> \<^verbatim>\<open>/Valor de avaliacao:\s*R\$\s*([\d\.,]+)/i\<close>
  \<^item> \<^verbatim>\<open>/Valor minimo de venda\s*1o Leilao:\s*R\$\s*([\d\.,]+)/i\<close>
  \<^item> \<^verbatim>\<open>/Valor minimo de venda\s*2o Leilao:\s*R\$\s*([\d\.,]+)/i\<close>
  \<^item> \<^verbatim>\<open>/Valor minimo de venda:\s*R\$\s*([\d\.,]+)/i\<close>
\<close>

definition reAval :: "jsstring list" where
  "reAval = [str ''Valor de avalia'' @ [231, 227] @ str ''o:'', str ''R$'']"

definition reMin1 :: "jsstring list" where
  "reMin1 = [str ''Valor m'' @ [237] @ str ''nimo de venda'',
             str ''1'' @ [186] @ str '' Leil'' @ [227] @ str ''o:'', str ''R$'']"

definition reMin2 :: "jsstring list" where
  "reMin2 = [str ''Valor m'' @ [237] @ str ''nimo de venda'',
             str ''2'' @ [186] @ str '' Leil'' @ [227] @ str ''o:'', str ''R$'']"

definition reMinGeneric :: "jsstring list" where
  "reMinGeneric = [str ''Valor m'' @ [237] @ str ''nimo de venda:'', str ''R$'']"

subsection \<open>\<^verbatim>\<open>parseBRL\<close>\<close>

text \<open>
  The three replacements of \<^verbatim>\<open>parseBRL\<close>: everything but digits, comma (44), full stop
  (46) and hyphen (45) is deleted, then every full stop, and the first comma becomes a
  full stop.
\<close>

definition cleanBRL :: "jsstring \<Rightarrow> jsstring" where
  "cleanBRL s =
     replaceFirstUnit 44 46
       (filter (\<lambda>c. c \<noteq> 46) (filter (\<lambda>c. isDigit c \<or> c = 44 \<or> c = 46 \<or> c = 45) s))"

text \<open>\<open>None\<close> is \<^verbatim>\<open>null\<close>; the argument is a string or absent.\<close>

definition parseBRL :: "jsstring option \<Rightarrow> jsnum option" where
  "parseBRL s =
     (let n = parseFloat (cleanBRL (case s of None \<Rightarrow> [] | Some t \<Rightarrow> t))
      in if n = NaN then None else Some n)"

subsection \<open>Overall minimum and discount\<close>

text \<open>
  \<^verbatim>\<open>candidatos\<close> and \<^verbatim>\<open>vMinGeral\<close>: the values that are not \<^verbatim>\<open>null\<close>, and their
  minimum if there is one.
\<close>

definition candidatos :: "jsnum option list \<Rightarrow> jsnum list" where
  "candidatos vs = List.map_filter id vs"

definition minimoGeral :: "jsnum option list \<Rightarrow> jsnum option" where
  "minimoGeral vs = (if candidatos vs \<noteq> [] then Some (mathMin (candidatos vs)) else None)"

text \<open>\<^verbatim>\<open>x.toFixed(2).replace(".", ",")\<close>.\<close>

definition formatBR :: "jsnum \<Rightarrow> jsstring" where
  "formatBR x = replaceFirstUnit 46 44 (toFixed2 x)"

text \<open>The discount: the last \<^verbatim>\<open>if\<close> of the block; 37 is the percent sign.\<close>

definition desconto :: "jsnum \<Rightarrow> jsnum \<Rightarrow> jsnum" where
  "desconto vAval vMinGeral =
     (let desc = num_mul (num_div (num_sub vAval vMinGeral) vAval) (Fin 100)
      in if num_less desc (Fin 0) then Fin 0 else desc)"

definition calcDesconto :: "jsnum option \<Rightarrow> jsnum option \<Rightarrow> jsstring" where
  "calcDesconto vAval vMinGeral =
     (case (vAval, vMinGeral) of
        (Some a, Some m) \<Rightarrow> if num_less (Fin 0) a then formatBR (desconto a m) @ [37] else []
      | _ \<Rightarrow> [])"

record valores =
  valorAvaliacao :: jsstring
  valorMinimo1 :: jsstring
  valorMinimo2 :: jsstring
  valorMinimoGenerico :: jsstring
  valorMinimoGeral :: jsstring
  descontoPercentual :: jsstring

text \<open>
  The block \<^verbatim>\<open>2) Valores\<close>, as a function of \<^verbatim>\<open>pValores.innerText\<close>; \<open>None\<close> when
  there is no \<^verbatim>\<open>#dadosImovel\<close> or no paragraph with the appraisal value, and then every
  field keeps its initial empty string.
\<close>

definition grupo :: "jsstring option \<Rightarrow> jsstring" where
  "grupo m = (case m of None \<Rightarrow> [] | Some g \<Rightarrow> trim g)"

text \<open>\<^verbatim>\<open>text\<close>: the paragraph with every run of whitespace collapsed, trimmed.\<close>

definition textoValores :: "jsstring \<Rightarrow> jsstring" where
  "textoValores innerText = trim (collapseRuns1 innerText)"

text \<open>
  \<^verbatim>\<open>vAval\<close>, \<^verbatim>\<open>vMin1\<close>, \<^verbatim>\<open>vMin2\<close>, \<^verbatim>\<open>valorMinimoGenerico\<close> (set only when neither
  numbered expression matched) and \<^verbatim>\<open>vMinGeral\<close>, as functions of \<^verbatim>\<open>text\<close>.
\<close>

definition vAvalDe :: "jsstring \<Rightarrow> jsnum option" where
  "vAvalDe text = parseBRL (Some (grupo (matchValor reAval text)))"

definition vMin1De :: "jsstring \<Rightarrow> jsnum option" where
  "vMin1De text = parseBRL (Some (grupo (matchValor reMin1 text)))"

definition vMin2De :: "jsstring \<Rightarrow> jsnum option" where
  "vMin2De text = parseBRL (Some (grupo (matchValor reMin2 text)))"

definition genericoDe :: "jsstring \<Rightarrow> jsstring" where
  "genericoDe text =
     (if matchValor reMin1 text = None \<and> matchValor reMin2 text = None
      then grupo (matchValor reMinGeneric text) else [])"

definition vMinGeralDe :: "jsstring \<Rightarrow> jsnum option" where
  "vMinGeralDe text =
     minimoGeral [vMin1De text, vMin2De text, parseBRL (Some (genericoDe text))]"

definition blocoValores :: "jsstring option \<Rightarrow> valores" where
  "blocoValores pValores =
     (case pValores of
        None \<Rightarrow>
          \<lparr>valorAvaliacao = [], valorMinimo1 = [], valorMinimo2 = [],
           valorMinimoGenerico = [], valorMinimoGeral = [], descontoPercentual = []\<rparr>
      | Some innerText \<Rightarrow>
          (let text = textoValores innerText
           in \<lparr>valorAvaliacao = grupo (matchValor reAval text),
               valorMinimo1 = grupo (matchValor reMin1 text),
               valorMinimo2 = grupo (matchValor reMin2 text),
               valorMinimoGenerico = genericoDe text,
               valorMinimoGeral =
                 (case vMinGeralDe text of None \<Rightarrow> [] | Some v \<Rightarrow> formatBR v),
               descontoPercentual = calcDesconto (vAvalDe text) (vMinGeralDe text)\<rparr>))"

text \<open>
  What \<^verbatim>\<open>parseFloat\<close> needs at the start of a cleaned string to give a number: after an
  optional hyphen, a digit, or a full stop and a digit.
\<close>

definition startsNumeric :: "jsstring \<Rightarrow> bool" where
  "startsNumeric u \<longleftrightarrow>
     (let w = (if u \<noteq> [] \<and> hd u = 45 then tl u else u)
      in w \<noteq> [] \<and> (isDigit (hd w) \<or> (hd w = 46 \<and> tl w \<noteq> [] \<and> isDigit (hd (tl w)))))"

text \<open>Example paragraphs; the line breaks of the page are code unit 10.\<close>

definition pValores_generico :: jsstring where
  "pValores_generico =
     str ''Valor de avalia'' @ [231, 227] @ str ''o: R$ 100.000,00'' @ [10] @
     str ''Valor m'' @ [237] @ str ''nimo de venda: R$ 80.000,00''"

definition pValores_dois_leiloes :: jsstring where
  "pValores_dois_leiloes =
     str ''Valor de avalia'' @ [231, 227] @ str ''o: R$ 100.000,00'' @ [10] @
     str ''Valor m'' @ [237] @ str ''nimo de venda 1'' @ [186] @ str '' Leil'' @ [227] @ str ''o: R$ 90.000,00'' @ [10] @
     str ''Valor m'' @ [237] @ str ''nimo de venda 2'' @ [186] @ str '' Leil'' @ [227] @ str ''o: R$ 60.000,00'' @ [10] @
     str ''Valor m'' @ [237] @ str ''nimo de venda: R$ 50.000,00''"

definition pValores_aval_zero :: jsstring where
  "pValores_aval_zero =
     str ''Valor de avalia'' @ [231, 227] @ str ''o: R$ 0,00'' @ [10] @
     str ''Valor m'' @ [237] @ str ''nimo de venda: R$ 80.000,00''"

text \<open>
  A paragraph whose appraisal is 1 followed by 309 zeros, more than the largest Number
  (about \<open>1.8 \<times> 10\<^sup>3\<^sup>0\<^sup>8\<close>).
\<close>

definition pValores_overflow :: jsstring where
  "pValores_overflow =
     str ''Valor de avalia'' @ [231, 227] @ str ''o: R$ 1'' @ replicate 309 48 @ [10] @
     str ''Valor m'' @ [237] @ str ''nimo de venda: R$ 80.000,00''"

section \<open>The detail extractor: \<^verbatim>\<open>extrairDetalhesImovel\<close>\<close>

text \<open>
  The record that the page evaluation returns; the property \<^verbatim>\<open>_imoveis_x\<close> of the source
  is the field \<open>imoveis_x\<close>.
\<close>

record imovel =
  imoveis_codigo_imovel :: jsstring
  imoveis_titulo :: jsstring
  imoveis_valor_avaliacao :: jsstring
  imoveis_valor_minimo_1_leilao :: jsstring
  imoveis_valor_minimo_2_leilao :: jsstring
  imoveis_valor_minimo_generico :: jsstring
  imoveis_valor_minimo :: jsstring
  imoveis_desconto_percentual :: jsstring
  imoveis_desconto_pct :: jsstring
  imoveis_tipo_imovel :: jsstring
  imoveis_quartos :: jsstring
  imoveis_garagem :: jsstring
  imoveis_numero_imovel :: jsstring
  imoveis_matricula :: jsstring
  imoveis_comarca :: jsstring
  imoveis_oficio :: jsstring
  imoveis_inscricao_imobiliaria :: jsstring
  imoveis_averbacao_leiloes :: jsstring
  imoveis_area_total :: jsstring
  imoveis_area_privativa :: jsstring
  imoveis_area_terreno :: jsstring
  imoveis_tipo_leilao :: jsstring
  imoveis_edital :: jsstring
  imoveis_leiloeiro :: jsstring
  imoveis_numero_item :: jsstring
  imoveis_data_leilao_1 :: jsstring
  imoveis_data_leilao_2 :: jsstring
  imoveis_endereco_completo :: jsstring
  imoveis_endereco_logradouro :: jsstring
  imoveis_endereco_numero :: jsstring
  imoveis_endereco_bairro_texto :: jsstring
  imoveis_endereco_cidade_texto :: jsstring
  imoveis_endereco_estado_texto :: jsstring
  imoveis_cep :: jsstring
  imoveis_descricao :: jsstring
  imoveis_formas_pagamento :: jsstring
  imoveis_link_matricula :: jsstring
  imoveis_link_edital :: jsstring
  imoveis_imgs_lista :: jsstring
  imoveis_estado :: jsstring
  imoveis_cidade_codigo :: jsstring
  imoveis_cidade :: jsstring
  imoveis_bairro :: jsstring

text \<open>
  The third argument of \<^verbatim>\<open>extrairDetalhesImovel\<close>; \<open>None\<close> is a property that is
  \<^verbatim>\<open>undefined\<close>, and the destructuring assignment puts \<^verbatim>\<open>"RO"\<close>, \<^verbatim>\<open>""\<close> and \<^verbatim>\<open>""\<close> in
  its place.
\<close>

record meta =
  meta_estado :: "jsstring option"
  meta_cidadeCodigo :: "jsstring option"
  meta_cidadeNome :: "jsstring option"

text \<open>
  What the evaluation reads of the document. The blocks 2, 3, 4, 5.3 and 7 of the source
  are modelled below from the texts they work on; the blocks 1, 5 and 6 walk the document
  (heading, related box, links, gallery), and the values of the variables they set are
  taken as they are:
  \<^item> \<open>dom_hdnimovel\<close>, \<open>dom_hdn_estado\<close>, \<open>dom_hdn_cidade\<close>, \<open>dom_hdn_bairro\<close>: the value of
    the hidden field, \<open>None\<close> if the field is missing;
  \<^item> \<open>dom_pValores\<close>: \<^verbatim>\<open>pValores.innerText\<close>, \<open>None\<close> if there is no such paragraph;
  \<^item> \<open>dom_colInfo1\<close>, \<open>dom_colInfo2\<close>: \<^verbatim>\<open>s.innerText || ""\<close> of the spans of the two info
    columns, \<open>None\<close> if the column is missing;
  \<^item> \<open>dom_imgsLista\<close>: the list \<^verbatim>\<open>imgsLista\<close>;
  \<^item> the others: the variable of the same name.
\<close>

record pagina =
  dom_titulo :: jsstring
  dom_hdnimovel :: "jsstring option"
  dom_pValores :: "jsstring option"
  dom_colInfo1 :: "jsstring list option"
  dom_colInfo2 :: "jsstring list option"
  dom_tipoLeilao :: jsstring
  dom_editalTexto :: jsstring
  dom_leiloeiro :: jsstring
  dom_numeroItem :: jsstring
  dom_dataLeilao1 :: jsstring
  dom_dataLeilao2 :: jsstring
  dom_enderecoCompleto :: jsstring
  dom_descricao :: jsstring
  dom_formasPagamento :: jsstring
  dom_linkMatricula :: jsstring
  dom_linkEdital :: jsstring
  dom_imgsLista :: "jsstring list"
  dom_hdn_estado :: "jsstring option"
  dom_hdn_cidade :: "jsstring option"
  dom_hdn_bairro :: "jsstring option"

text \<open>
  The function passed to \<^verbatim>\<open>page.evaluate\<close>, with its three arguments. The code units
  243, 250, 237, 231, 227, 225, 245 and 193 are the accented letters of the labels; 124 is
  the bar that joins the image list.
\<close>

definition dados :: "jsstring \<Rightarrow> jsstring \<Rightarrow> jsstring \<Rightarrow> pagina \<Rightarrow> imovel" where
  "dados estado cidadeCodigo cidadeNome pg =
     (let v = blocoValores (dom_pValores pg);
          info1 = (\<lambda>label. case dom_colInfo1 pg of
                               None \<Rightarrow> []
                             | Some spans \<Rightarrow> getValueAfterLabel (map trim spans) label);
          info2 = (\<lambda>label. case dom_colInfo2 pg of
                               None \<Rightarrow> []
                             | Some spans \<Rightarrow> getValueAfterEqOrColon (map trim spans) label);
          e = quebraEndereco (dom_enderecoCompleto pg)
      in \<lparr>
         imoveis_codigo_imovel = (if falsy (dom_hdnimovel pg) then [] else trim (the (dom_hdnimovel pg))),
         imoveis_titulo = dom_titulo pg,
         imoveis_valor_avaliacao = valorAvaliacao v,
         imoveis_valor_minimo_1_leilao = valorMinimo1 v,
         imoveis_valor_minimo_2_leilao = valorMinimo2 v,
         imoveis_valor_minimo_generico = valorMinimoGenerico v,
         imoveis_valor_minimo = valorMinimoGeral v,
         imoveis_desconto_percentual = descontoPercentual v,
         imoveis_desconto_pct = descontoPercentual v,
         imoveis_tipo_imovel = info1 (str ''Tipo de im'' @ [243] @ str ''vel''),
         imoveis_quartos = info1 (str ''Quartos''),
         imoveis_garagem = info1 (str ''Garagem''),
         imoveis_numero_imovel = info1 (str ''N'' @ [250] @ str ''mero do im'' @ [243] @ str ''vel''),
         imoveis_matricula = info1 (str ''Matr'' @ [237] @ str ''cula''),
         imoveis_comarca = info1 (str ''Comarca''),
         imoveis_oficio = info1 (str ''Of'' @ [237] @ str ''cio''),
         imoveis_inscricao_imobiliaria = info1 (str ''Inscri'' @ [231, 227] @ str ''o imobili'' @ [225] @ str ''ria''),
         imoveis_averbacao_leiloes = info1 (str ''Averba'' @ [231, 227] @ str ''o dos leil'' @ [245] @ str ''es negativos''),
         imoveis_area_total = info2 ([193] @ str ''rea total''),
         imoveis_area_privativa = info2 ([193] @ str ''rea privativa''),
         imoveis_area_terreno = info2 ([193] @ str ''rea do terreno''),
         imoveis_tipo_leilao = dom_tipoLeilao pg,
         imoveis_edital = dom_editalTexto pg,
         imoveis_leiloeiro = dom_leiloeiro pg,
         imoveis_numero_item = dom_numeroItem pg,
         imoveis_data_leilao_1 = dom_dataLeilao1 pg,
         imoveis_data_leilao_2 = dom_dataLeilao2 pg,
         imoveis_endereco_completo = dom_enderecoCompleto pg,
         imoveis_endereco_logradouro = enderecoLogradouro e,
         imoveis_endereco_numero = enderecoNumero e,
         imoveis_endereco_bairro_texto = enderecoBairroTexto e,
         imoveis_endereco_cidade_texto = enderecoCidadeTexto e,
         imoveis_endereco_estado_texto = enderecoEstadoTexto e,
         imoveis_cep = enderecoCep e,
         imoveis_descricao = dom_descricao pg,
         imoveis_formas_pagamento = dom_formasPagamento pg,
         imoveis_link_matricula = dom_linkMatricula pg,
         imoveis_link_edital = dom_linkEdital pg,
         imoveis_imgs_lista = join [124] (dom_imgsLista pg),
         imoveis_estado = (if \<not> falsy (dom_hdn_estado pg) then trim (the (dom_hdn_estado pg)) else estado),
         imoveis_cidade_codigo = (if \<not> falsy (dom_hdn_cidade pg) then trim (the (dom_hdn_cidade pg)) else cidadeCodigo),
         imoveis_cidade = (if cidadeNome \<noteq> [] then cidadeNome else enderecoCidadeTexto e),
         imoveis_bairro = (if \<not> falsy (dom_hdn_bairro pg) then trim (the (dom_hdn_bairro pg)) else enderecoBairroTexto e)\<rparr>)"

text \<open>
  \<^verbatim>\<open>extrairDetalhesImovel\<close>: \<open>None\<close> for the page stands for a navigation, a wait or an
  evaluation that throws; the function then returns \<^verbatim>\<open>null\<close>.
\<close>

definition extrairDetalhesImovel :: "meta option \<Rightarrow> pagina option \<Rightarrow> imovel option" where
  "extrairDetalhesImovel m pg =
     (let estado = (case m of None \<Rightarrow> str ''RO''
                    | Some x \<Rightarrow> (case meta_estado x of None \<Rightarrow> str ''RO'' | Some s \<Rightarrow> s));
          cidadeCodigo = (case m of None \<Rightarrow> []
                    | Some x \<Rightarrow> (case meta_cidadeCodigo x of None \<Rightarrow> [] | Some s \<Rightarrow> s));
          cidadeNome = (case m of None \<Rightarrow> []
                    | Some x \<Rightarrow> (case meta_cidadeNome x of None \<Rightarrow> [] | Some s \<Rightarrow> s))
      in case pg of
           None \<Rightarrow> None
         | Some p \<Rightarrow> Some (dados estado cidadeCodigo cidadeNome p))"

text \<open>An example page: only the paragraph of values and the address are there.\<close>

definition pagina_exemplo :: pagina where
  "pagina_exemplo =
     \<lparr>dom_titulo = str ''CASA'', dom_hdnimovel = Some (str '' 8444420000000 ''),
      dom_pValores = Some pValores_generico, dom_colInfo1 = None, dom_colInfo2 = None,
      dom_tipoLeilao = [], dom_editalTexto = [], dom_leiloeiro = [], dom_numeroItem = [],
      dom_dataLeilao1 = [], dom_dataLeilao2 = [], dom_enderecoCompleto = endereco_exemplo,
      dom_descricao = [], dom_formasPagamento = [], dom_linkMatricula = [],
      dom_linkEdital = [], dom_imgsLista = [], dom_hdn_estado = None,
      dom_hdn_cidade = Some [], dom_hdn_bairro = None\<rparr>"

section \<open>The listing collector: \<^verbatim>\<open>coletarUrlsCidade\<close>\<close>

text \<open>
  The regular expression \<^verbatim>\<open>/detalhe_imovel\((\d+)\)/\<close>. \<open>matchDetalheAt\<close> matches it at
  the start of a string and gives group 1; \<open>matchDetalhe\<close> is \<^verbatim>\<open>onclick.match(...)\<close>, the
  leftmost match. The digits are taken greedily; giving one back cannot help, since the
  next character would be a digit and not the closing parenthesis.
\<close>

definition matchDetalheAt :: "jsstring \<Rightarrow> jsstring option" where
  "matchDetalheAt s =
     (if startsWith s (str ''detalhe_imovel('') then
        (let r = drop (length (str ''detalhe_imovel('')) s;
             ds = takeWhile isDigit r;
             t = dropWhile isDigit r
         in if ds \<noteq> [] \<and> t \<noteq> [] \<and> hd t = 41 then Some ds else None)
      else None)"

fun matchDetalhe :: "jsstring \<Rightarrow> jsstring option" where
  "matchDetalhe [] = None"
| "matchDetalhe (c # r) =
     (case matchDetalheAt (c # r) of Some ds \<Rightarrow> Some ds | None \<Rightarrow> matchDetalhe r)"

text \<open>
  A listing item (\<^verbatim>\<open>.group-block-item\<close>) is modelled by what the collector reads of it:
  the \<^verbatim>\<open>onclick\<close> attribute of each of its anchors, in document order (\<open>None\<close> for an
  anchor without the attribute). \<^verbatim>\<open>it.querySelector("a[onclick*='detalhe_imovel']")\<close> is
  the first anchor whose attribute contains the text.
\<close>

type_synonym item = "jsstring option list"

definition querySelectorLink :: "item \<Rightarrow> jsstring option" where
  "querySelectorLink it =
     (case filter (\<lambda>a. case a of None \<Rightarrow> False | Some t \<Rightarrow> includes_js t (str ''detalhe_imovel'')) it of
        [] \<Rightarrow> None
      | a # _ \<Rightarrow> a)"

definition itemId :: "item \<Rightarrow> jsstring option" where
  "itemId it =
     (case querySelectorLink it of
        None \<Rightarrow> None
      | Some onclick \<Rightarrow> matchDetalhe onclick)"

definition urlDet :: "jsstring \<Rightarrow> jsstring" where
  "urlDet idImovel =
     str ''https://venda-imoveis.caixa.gov.br/sistema/detalhe-imovel.asp?hdnimovel='' @ idImovel"

text \<open>The list \<^verbatim>\<open>list\<close> that the page evaluation returns: one URL per item that has an identifier.\<close>

definition pageIds :: "item list \<Rightarrow> jsstring list" where
  "pageIds items = List.map_filter itemId items"

definition pageUrls :: "item list \<Rightarrow> jsstring list" where
  "pageUrls items = map urlDet (pageIds items)"

text \<open>
  A JavaScript \<^verbatim>\<open>Set\<close> keeps its elements in insertion order and \<^verbatim>\<open>add\<close> ignores an
  element it already has; \<^verbatim>\<open>Array.from\<close> lists them in that order. The set is modelled
  by that list.
\<close>

definition setAdd :: "'a list \<Rightarrow> 'a \<Rightarrow> 'a list" where
  "setAdd s u = (if u \<in> set s then s else s @ [u])"

text \<open>
  \<^verbatim>\<open>coletarUrlsCidade\<close>, given the items found on each page the loop visits
  (\<open>p = 1, ..., totalPages\<close>), in that order.
\<close>

definition coletarUrlsCidade :: "item list list \<Rightarrow> jsstring list" where
  "coletarUrlsCidade pages =
     foldl (\<lambda>urlsSet items. foldl setAdd urlsSet (pageUrls items)) [] pages"

text \<open>Two listing pages for the examples: the identifier 20 is on both.\<close>

definition anchorOf :: "string \<Rightarrow> item" where
  "anchorOf n = [None, Some (str ''javascript:detalhe_imovel('' @ str n @ str ''); return false;'')]"

definition pages_overlap :: "item list list" where
  "pages_overlap = [[anchorOf ''10'', anchorOf ''20''], [anchorOf ''20'', [None], anchorOf ''30'']]"

section \<open>The spreadsheet writer: \<^verbatim>\<open>salvarComoXlsx\<close>\<close>

text \<open>The fixed column list \<^verbatim>\<open>campos\<close> of \<^verbatim>\<open>salvarComoXlsx\<close>, in its declared order.\<close>

definition campos :: "jsstring list" where
  "campos = map str
    [''_imoveis_codigo_imovel'', ''_imoveis_titulo'', ''_imoveis_valor_avaliacao'',
     ''_imoveis_valor_minimo_1_leilao'', ''_imoveis_valor_minimo_2_leilao'',
     ''_imoveis_valor_minimo_generico'', ''_imoveis_valor_minimo'',
     ''_imoveis_desconto_percentual'', ''_imoveis_desconto_pct'', ''_imoveis_tipo_imovel'',
     ''_imoveis_quartos'', ''_imoveis_garagem'', ''_imoveis_numero_imovel'',
     ''_imoveis_matricula'', ''_imoveis_comarca'', ''_imoveis_oficio'',
     ''_imoveis_inscricao_imobiliaria'', ''_imoveis_averbacao_leiloes'',
     ''_imoveis_area_total'', ''_imoveis_area_privativa'', ''_imoveis_area_terreno'',
     ''_imoveis_tipo_leilao'', ''_imoveis_edital'', ''_imoveis_leiloeiro'',
     ''_imoveis_numero_item'', ''_imoveis_data_leilao_1'', ''_imoveis_data_leilao_2'',
     ''_imoveis_endereco_completo'', ''_imoveis_endereco_logradouro'',
     ''_imoveis_endereco_numero'', ''_imoveis_endereco_bairro_texto'',
     ''_imoveis_endereco_cidade_texto'', ''_imoveis_endereco_estado_texto'',
     ''_imoveis_cep'', ''_imoveis_descricao'', ''_imoveis_formas_pagamento'',
     ''_imoveis_link_matricula'', ''_imoveis_link_edital'', ''_imoveis_imgs_lista'',
     ''_imoveis_estado'', ''_imoveis_cidade_codigo'', ''_imoveis_cidade'',
     ''_imoveis_bairro'']"

text \<open>
  What \<^verbatim>\<open>det[campo]\<close> can be for a record of the extractor: \<^verbatim>\<open>undefined\<close> (the
  property is missing), \<^verbatim>\<open>null\<close>, or a string. A record is the function from
  property names to these values.
\<close>

datatype cell = Undefined | Null | Str jsstring

type_synonym det = "jsstring \<Rightarrow> cell"

text \<open>\<^verbatim>\<open>.replace(/\r?\n|\r/g, " ")\<close>: CR LF, a lone LF and a lone CR each become one space.\<close>

fun replaceNewlines :: "jsstring \<Rightarrow> jsstring" where
  "replaceNewlines [] = []"
| "replaceNewlines [c] = [if c = 10 \<or> c = 13 then 32 else c]"
| "replaceNewlines (c # d # r) =
     (if c = 13 \<and> d = 10 then 32 # replaceNewlines r
      else (if c = 10 \<or> c = 13 then 32 else c) # replaceNewlines (d # r))"

text \<open>
  \<^verbatim>\<open>.replace(/\s{2,}/g, " ")\<close>: the match is greedy, so every maximal run of two or more
  whitespace characters becomes one space; a single whitespace character is kept as it is.
\<close>

function collapseRuns2 :: "jsstring \<Rightarrow> jsstring" where
  "collapseRuns2 [] = []"
| "collapseRuns2 (c # r) =
     (if isWhiteSpace c \<and> r \<noteq> [] \<and> isWhiteSpace (hd r)
      then 32 # collapseRuns2 (dropWhile isWhiteSpace r)
      else c # collapseRuns2 r)"
  by pat_completeness auto
termination
  by (relation "measure length") (auto simp: length_dropWhile_le less_Suc_eq_le)

definition sanitize :: "cell \<Rightarrow> jsstring" where
  "sanitize v =
     (case v of
        Undefined \<Rightarrow> []
      | Null \<Rightarrow> []
      | Str s \<Rightarrow> trim (collapseRuns2 (replaceNewlines s)))"

text \<open>
  A row object: \<^verbatim>\<open>campos.forEach\<close> assigns the properties in the order of
  \<^verbatim>\<open>campos\<close>, and a JavaScript object keeps its string keys in insertion order, so a
  row is the list of its (key, value) pairs.
\<close>

type_synonym row = "(jsstring \<times> jsstring) list"

definition mkRow :: "det \<Rightarrow> row" where
  "mkRow d = map (\<lambda>campo. (campo, sanitize (d campo))) campos"

definition salvarComoXlsx_rows :: "det list \<Rightarrow> row list" where
  "salvarComoXlsx_rows detalhes = map mkRow detalhes"

text \<open>
  \<^verbatim>\<open>XLSX.utils.json_to_sheet(rows, { header: campos })\<close>: the first line of the sheet
  holds the header, each further line the cells of one row in header order (an empty
  cell where the row has no such key).
\<close>

definition json_to_sheet :: "row list \<Rightarrow> jsstring list \<Rightarrow> jsstring list list" where
  "json_to_sheet rows header =
     header # map (\<lambda>r. map (\<lambda>h. case map_of r h of None \<Rightarrow> [] | Some v \<Rightarrow> v) header) rows"

definition salvarComoXlsx :: "det list \<Rightarrow> jsstring list list" where
  "salvarComoXlsx detalhes = json_to_sheet (salvarComoXlsx_rows detalhes) campos"

text \<open>
  The claim's reading of a cell, written on the words of the value and not on the three
  replacements of the code. The value is cut into its maximal runs of whitespace and its
  words (the maximal runs of other characters). The whitespace before the first word and
  after the last one is dropped. A run of whitespace between two words becomes one space
  when it has two or more characters or is a single CR or LF; a single other whitespace
  character stays as it is. \<open>words_spec\<close> does this for a string that starts with a word.
\<close>

definition separator :: "jsstring \<Rightarrow> jsstring" where
  "separator run = (if length run = 1 \<and> hd run \<noteq> 10 \<and> hd run \<noteq> 13 then run else [32])"

function words_spec :: "jsstring \<Rightarrow> jsstring" where
  "words_spec s =
     (let w = takeWhile (\<lambda>c. \<not> isWhiteSpace c) s;
          t = dropWhile (\<lambda>c. \<not> isWhiteSpace c) s;
          run = takeWhile isWhiteSpace t;
          rest = dropWhile isWhiteSpace t
      in if rest = [] then w else w @ separator run @ words_spec rest)"
  by pat_completeness auto
termination
proof (relation "measure length")
  show "wf (measure length)" by simp
next
  fix s w t run rest :: jsstring
  assume w: "w = takeWhile (\<lambda>c. \<not> isWhiteSpace c) s"
    and t: "t = dropWhile (\<lambda>c. \<not> isWhiteSpace c) s"
    and r: "rest = dropWhile isWhiteSpace t" and ne: "rest \<noteq> []"
  have "length rest < length s"
  proof (cases s)
    case Nil
    with t r ne show ?thesis by simp
  next
    case (Cons c s')
    show ?thesis
    proof (cases "isWhiteSpace c")
      case True
      with Cons t have "t = c # s'" by simp
      with r True have "rest = dropWhile isWhiteSpace s'" by simp
      then have "length rest \<le> length s'" by (simp add: length_dropWhile_le)
      with Cons show ?thesis by simp
    next
      case False
      with Cons t have "t = dropWhile (\<lambda>c. \<not> isWhiteSpace c) s'" by simp
      then have "length t \<le> length s'" by (simp add: length_dropWhile_le)
      moreover from r have "length rest \<le> length t" by (simp add: length_dropWhile_le)
      ultimately show ?thesis using Cons by simp
    qed
  qed
  then show "(rest, s) \<in> measure length" by simp
qed

declare words_spec.simps [simp del]

definition sanitize_spec :: "cell \<Rightarrow> jsstring" where
  "sanitize_spec v = (case v of Str s \<Rightarrow> words_spec (dropWhile isWhiteSpace s) | _ \<Rightarrow> [])"

text \<open>The first two replacements of \<^verbatim>\<open>sanitize\<close> together.\<close>

definition passes :: "jsstring \<Rightarrow> jsstring" where
  "passes s = collapseRuns2 (replaceNewlines s)"

text \<open>What the claim calls a sanitized value.\<close>

definition sanitized :: "jsstring \<Rightarrow> bool" where
  "sanitized s \<longleftrightarrow> 10 \<notin> set s \<and> 13 \<notin> set s \<and> noDoubleSpace s \<and> trimmed s"

text \<open>
  An example record: it has only a title, with a line break and a run of blanks inside it,
  and a description with a single tab between two words.
\<close>

definition det_titulo :: det where
  "det_titulo k =
     (if k = str ''_imoveis_titulo'' then Str (str ''Casa'' @ [13, 10, 32, 32] @ str ''A '')
      else if k = str ''_imoveis_descricao'' then Str ([32] @ str ''a'' @ [9] @ str ''b'' @ [10] @ str ''c'')
      else if k = str ''_imoveis_cep'' then Null
      else Undefined)"

section \<open>The sync forwarder: \<^verbatim>\<open>sync-wp.js\<close>\<close>


















section \<open>Properties of the string functions\<close>

lemma noDoubleSpace_Cons:
  "noDoubleSpace (c # r) \<longleftrightarrow> (r = [] \<or> \<not> (isWhiteSpace c \<and> isWhiteSpace (hd r))) \<and> noDoubleSpace r"
  by (cases r) auto

lemma noDoubleSpace_append_left: "noDoubleSpace (xs @ ys) \<Longrightarrow> noDoubleSpace xs"
  by (induction xs rule: noDoubleSpace.induct) auto

lemma noDoubleSpace_dropWhile: "noDoubleSpace s \<Longrightarrow> noDoubleSpace (dropWhile P s)"
  by (induction s rule: noDoubleSpace.induct) auto

lemma trimEnd_prefix: "trimEnd s @ rev (takeWhile isWhiteSpace (rev s)) = s"
proof -
  have "rev (takeWhile isWhiteSpace (rev s) @ dropWhile isWhiteSpace (rev s)) = s"
    by simp
  then show ?thesis by (simp add: trimEnd_def del: takeWhile_dropWhile_id)
qed

lemma noDoubleSpace_trim: "noDoubleSpace s \<Longrightarrow> noDoubleSpace (trim s)"
proof -
  assume "noDoubleSpace s"
  then have "noDoubleSpace (trimStart s)"
    by (simp add: trimStart_def noDoubleSpace_dropWhile)
  then have "noDoubleSpace (trimEnd (trimStart s) @ rev (takeWhile isWhiteSpace (rev (trimStart s))))"
    by (simp only: trimEnd_prefix)
  then show ?thesis
    unfolding trim_def by (rule noDoubleSpace_append_left)
qed

lemma set_trim: "set (trim s) \<subseteq> set s"
proof
  fix x
  assume "x \<in> set (trim s)"
  then have "x \<in> set (dropWhile isWhiteSpace (rev (dropWhile isWhiteSpace s)))"
    by (simp add: trim_def trimEnd_def trimStart_def)
  then have "x \<in> set (rev (dropWhile isWhiteSpace s))"
    by (rule set_dropWhileD)
  then have "x \<in> set (dropWhile isWhiteSpace s)"
    by simp
  then show "x \<in> set s"
    by (rule set_dropWhileD)
qed

lemma trimmed_trim: "trimmed (trim s)"
proof (cases "trim s = []")
  case True
  then show ?thesis by (simp add: trimmed_def)
next
  case False
  let ?t = "trimStart s"
  from False have ne: "dropWhile isWhiteSpace (rev ?t) \<noteq> []"
    by (simp add: trim_def trimEnd_def)
  then have "\<not> isWhiteSpace (hd (dropWhile isWhiteSpace (rev ?t)))"
    by (rule hd_dropWhile)
  with ne have l: "\<not> isWhiteSpace (last (trim s))"
    by (simp add: trim_def trimEnd_def last_rev)
  from ne have tne: "?t \<noteq> []" by auto
  then have "\<not> isWhiteSpace (hd ?t)"
    unfolding trimStart_def by (rule hd_dropWhile)
  moreover have "hd (trim s) = hd ?t"
  proof -
    have "hd (trimEnd ?t @ rev (takeWhile isWhiteSpace (rev ?t))) = hd (trimEnd ?t)"
      using False by (simp add: trim_def)
    then show ?thesis by (simp add: trimEnd_prefix trim_def)
  qed
  ultimately show ?thesis using l by (simp add: trimmed_def)
qed

lemma trim_id: "trimmed s \<Longrightarrow> trim s = s"
proof (cases "s = []")
  case True
  then show ?thesis by (simp add: trim_def trimStart_def trimEnd_def)
next
  case False
  assume "trimmed s"
  with False have h: "\<not> isWhiteSpace (hd s)" and l: "\<not> isWhiteSpace (last s)"
    by (simp_all add: trimmed_def)
  from False h have "dropWhile isWhiteSpace s = s"
    by (cases s) auto
  moreover from False l have "dropWhile isWhiteSpace (rev s) = rev s"
    by (cases "rev s") (auto simp: last_rev [symmetric] simp del: last_rev)
  ultimately show ?thesis
    by (simp add: trim_def trimStart_def trimEnd_def)
qed

section \<open>Properties of the text normalizer\<close>
















lemma isWhiteSpace_lowerUnit: "isWhiteSpace (lowerUnit c) = isWhiteSpace c"
  by (auto simp: isWhiteSpace_def lowerUnit_def)














section \<open>Properties of the labelled-attribute lookup\<close>
















section \<open>Properties of the address decomposition\<close>















section \<open>Properties of rounding\<close>



lemma bitLength_bounds: "0 < n \<Longrightarrow> 2 ^ (bitLength n - 1) \<le> n \<and> n < 2 ^ bitLength n"
proof (induction n rule: bitLength.induct)
  case (1 n)
  show ?case
  proof (cases "n div 2 = 0")
    case True
    with 1(2) have "n = 1" by auto
    then show ?thesis by (simp add: bitLength.simps)
  next
    case False
    with 1 have ih: "2 ^ (bitLength (n div 2) - 1) \<le> n div 2 \<and> n div 2 < 2 ^ bitLength (n div 2)"
      by simp
    from False have pos: "0 < bitLength (n div 2)"
      by (subst bitLength.simps) simp
    have b: "bitLength n = Suc (bitLength (n div 2))"
      using 1(2) by (subst bitLength.simps) simp
    have "2 * (n div 2) \<le> n" by simp
    with ih have "2 * 2 ^ (bitLength (n div 2) - 1) \<le> n" by linarith
    with pos have lo: "2 ^ bitLength (n div 2) \<le> n"
      by (cases "bitLength (n div 2)") auto
    have "n < 2 * (n div 2) + 2" by presburger
    with ih have "n < 2 * 2 ^ bitLength (n div 2)" by linarith
    with lo b show ?thesis by simp
  qed
qed

lemma powi_unique:
  fixes a :: rat
  assumes "2 powi e \<le> a" "a < 2 powi (e + 1)" "2 powi r \<le> a" "a < 2 powi (r + 1)"
  shows "e = r"
proof -
  have less: "x < y" if "(2::rat) powi x < 2 powi y" for x y :: int
  proof (rule ccontr)
    assume "\<not> x < y"
    then have "(2::rat) powi y \<le> 2 powi x"
      by (intro power_int_increasing) simp_all
    with that show False by simp
  qed
  from assms(1,4) have "(2::rat) powi e < 2 powi (r + 1)" by simp
  then have "e < r + 1" by (rule less)
  moreover from assms(3,2) have "(2::rat) powi r < 2 powi (e + 1)" by simp
  then have "r < e + 1" by (rule less)
  ultimately show ?thesis by simp
qed

lemma ilog2_bounds:
  assumes "0 < a"
  shows "2 powi (ilog2 a) \<le> a \<and> a < 2 powi (ilog2 a + 1)"
proof -
  obtain n d where qd: "quotient_of a = (n, d)" by (cases "quotient_of a") auto
  then have d: "0 < d" and a: "a = of_int n / of_int d"
    by (simp_all add: quotient_of_denom_pos quotient_of_div)
  with assms have n: "0 < n"
    by (simp add: zero_less_divide_iff)
  let ?bn = "bitLength (nat n)" and ?bd = "bitLength (nat d)"
  let ?k = "int ?bn - int ?bd"
  from n have bn: "2 ^ (?bn - 1) \<le> nat n \<and> nat n < 2 ^ ?bn"
    by (intro bitLength_bounds) simp
  from d have bd: "2 ^ (?bd - 1) \<le> nat d \<and> nat d < 2 ^ ?bd"
    by (intro bitLength_bounds) simp
  have nn: "of_int n = (of_nat (nat n) :: rat)" using n by simp
  have dd: "of_int d = (of_nat (nat d) :: rat)" using d by simp
  have n_hi: "(of_int n :: rat) < 2 ^ ?bn"
    unfolding nn using bn by (metis of_nat_less_iff of_nat_numeral of_nat_power)
  have d_hi: "(of_int d :: rat) < 2 ^ ?bd"
    unfolding dd using bd by (metis of_nat_less_iff of_nat_numeral of_nat_power)
  have n_lo: "(2 :: rat) ^ ?bn \<le> 2 * of_int n"
  proof -
    from bn have "2 * 2 ^ (?bn - 1) \<le> 2 * nat n" by simp
    moreover from bn have "0 < ?bn" by (cases ?bn) auto
    ultimately have "2 ^ ?bn \<le> 2 * nat n" by (cases ?bn) auto
    then have "(of_nat (2 ^ ?bn) :: rat) \<le> of_nat (2 * nat n)" by (simp only: of_nat_le_iff)
    then show ?thesis unfolding nn by simp
  qed
  have d_lo: "(2 :: rat) ^ ?bd \<le> 2 * of_int d"
  proof -
    from bd have "2 * 2 ^ (?bd - 1) \<le> 2 * nat d" by simp
    moreover from bd have "0 < ?bd" by (cases ?bd) auto
    ultimately have "2 ^ ?bd \<le> 2 * nat d" by (cases ?bd) auto
    then have "(of_nat (2 ^ ?bd) :: rat) \<le> of_nat (2 * nat d)" by (simp only: of_nat_le_iff)
    then show ?thesis unfolding dd by simp
  qed
  have pk: "(2 :: rat) powi ?k = 2 ^ ?bn / 2 ^ ?bd"
    by (simp add: power_int_diff)
  have dpos: "(0 :: rat) < of_int d" using d by simp
  have upper: "a < 2 powi (?k + 1)"
  proof -
    have "of_int n * (2 :: rat) ^ ?bd < 2 ^ ?bn * (2 * of_int d)"
    proof -
      have "of_int n * (2 :: rat) ^ ?bd < 2 ^ ?bn * 2 ^ ?bd"
        using n_hi by simp
      also have "\<dots> \<le> 2 ^ ?bn * (2 * of_int d)"
        using d_lo by simp
      finally show ?thesis .
    qed
    then have "of_int n / of_int d < (2 :: rat) ^ ?bn * 2 / 2 ^ ?bd"
      using dpos by (simp add: field_simps)
    then show ?thesis
      unfolding a by (simp add: power_int_add pk)
  qed
  have lower: "2 powi (?k - 1) < a"
  proof -
    have "(2 :: rat) ^ ?bn * of_int d < 2 * of_int n * 2 ^ ?bd"
    proof -
      have "(2 :: rat) ^ ?bn * of_int d \<le> 2 * of_int n * of_int d"
        using n_lo dpos by simp
      also have "\<dots> < 2 * of_int n * 2 ^ ?bd"
        using d_hi n by simp
      finally show ?thesis .
    qed
    then have "(2 :: rat) ^ ?bn / 2 ^ ?bd / 2 < of_int n / of_int d"
      using dpos by (simp add: field_simps)
    then show ?thesis
      unfolding a by (simp add: power_int_diff pk)
  qed
  show ?thesis
  proof (cases "2 powi ?k \<le> a")
    case True
    then have "ilog2 a = ?k" by (simp add: ilog2_def qd)
    with True upper show ?thesis by simp
  next
    case False
    then have "ilog2 a = ?k - 1" by (simp add: ilog2_def qd)
    with False lower show ?thesis by simp
  qed
qed

lemma ilog2_unique:
  "0 < a \<Longrightarrow> 2 powi e \<le> a \<Longrightarrow> a < 2 powi (e + 1) \<Longrightarrow> ilog2 a = e"
  using ilog2_bounds [of a] powi_unique [of "ilog2 a" a e] by simp

lemma roundHalfEven_near:
  assumes "\<bar>x - of_int m\<bar> < 1 / 2"
  shows "roundHalfEven x = m"
proof -
  from assms have lo: "of_int m - 1 / 2 < x" and hi: "x < of_int m + 1 / 2"
    by linarith+
  have "\<lfloor>x\<rfloor> = m \<or> \<lfloor>x\<rfloor> = m - 1"
  proof -
    from lo have "of_int (m - 1) \<le> x" by simp
    then have "m - 1 \<le> \<lfloor>x\<rfloor>" by (simp only: le_floor_iff)
    moreover from hi have "x < of_int (m + 1)" by simp
    then have "\<lfloor>x\<rfloor> < m + 1" by (simp only: floor_less_iff)
    ultimately show ?thesis by linarith
  qed
  then show ?thesis
  proof
    assume f: "\<lfloor>x\<rfloor> = m"
    with hi have "x - of_int \<lfloor>x\<rfloor> < 1 / 2" by simp
    then show ?thesis by (simp add: roundHalfEven_def Let_def f)
  next
    assume f: "\<lfloor>x\<rfloor> = m - 1"
    with lo have "1 / 2 < x - of_int \<lfloor>x\<rfloor>" by simp
    then show ?thesis by (simp add: roundHalfEven_def Let_def f)
  qed
qed

lemma roundDouble_pos:
  assumes "0 < q" "2 powi e \<le> q" "q < 2 powi (e + 1)"
    and "qe = max (e - 52) (- 1074)"
    and "\<bar>q / 2 powi qe - of_int m\<bar> < 1 / 2"
    and "of_int m * 2 powi qe < (2 :: rat) ^ 1024"
  shows "roundDouble q = Fin (of_int m * 2 powi qe)"
proof -
  from assms(1-3) have "ilog2 q = e" by (rule ilog2_unique)
  moreover from assms(5) have "roundHalfEven (q / 2 powi qe) = m" by (rule roundHalfEven_near)
  ultimately show ?thesis
    using assms(1,4,6) by (simp add: roundDouble_def Let_def)
qed

lemma rd_fifth: "roundDouble (1 / 5) = Fin (3602879701896397 / 18014398509481984)"
  using roundDouble_pos [of "1 / 5" "- 3" "- 55" 7205759403792794] by simp

lemma rd_100000: "roundDouble 100000 = Fin 100000"
  using roundDouble_pos [of 100000 16 "- 36" 6871947673600000] by simp

lemma rd_80000: "roundDouble 80000 = Fin 80000"
  using roundDouble_pos [of 80000 16 "- 36" 5497558138880000] by simp

lemma rd_20000: "roundDouble 20000 = Fin 20000"
  using roundDouble_pos [of 20000 14 "- 38" 5497558138880000] by simp

lemma rd_20: "roundDouble (3602879701896397 / 18014398509481984 * 100) = Fin 20"
  using roundDouble_pos [of "3602879701896397 / 18014398509481984 * 100" 4 "- 48" 5629499534213120] by simp

lemma rd_1234_56: "roundDouble (123456 / 100) = Fin (2714826150374277 / 2199023255552)"
  using roundDouble_pos [of "123456 / 100" 10 "- 42" 5429652300748554] by simp

lemma roundHalfEven_bounds: "\<lfloor>x\<rfloor> \<le> roundHalfEven x \<and> roundHalfEven x \<le> \<lfloor>x\<rfloor> + 1"
  by (simp add: roundHalfEven_def Let_def)

lemma roundHalfEven_int: "roundHalfEven (of_int n) = n"
  by (simp add: roundHalfEven_def Let_def)

lemma roundHalfEven_mono: "x \<le> y \<Longrightarrow> roundHalfEven x \<le> roundHalfEven y"
proof -
  assume xy: "x \<le> y"
  then have f: "\<lfloor>x\<rfloor> \<le> \<lfloor>y\<rfloor>" by (rule floor_mono)
  show ?thesis
  proof (cases "\<lfloor>x\<rfloor> = \<lfloor>y\<rfloor>")
    case True
    with xy have "x - of_int \<lfloor>x\<rfloor> \<le> y - of_int \<lfloor>y\<rfloor>" by simp
    with True show ?thesis by (auto simp: roundHalfEven_def Let_def)
  next
    case False
    with f have "\<lfloor>x\<rfloor> + 1 \<le> \<lfloor>y\<rfloor>" by simp
    with roundHalfEven_bounds [of x] roundHalfEven_bounds [of y] show ?thesis by linarith
  qed
qed

lemma roundHalfEven_le: "x \<le> of_int n \<Longrightarrow> roundHalfEven x \<le> n"
  using roundHalfEven_mono [of x "of_int n"] by (simp add: roundHalfEven_int)

lemma roundHalfEven_ge: "of_int n \<le> x \<Longrightarrow> n \<le> roundHalfEven x"
  using roundHalfEven_mono [of "of_int n" x] by (simp add: roundHalfEven_int)

lemma powi_less_D:
  fixes x y :: int
  assumes "(2::rat) powi x < 2 powi y"
  shows "x < y"
proof (rule ccontr)
  assume "\<not> x < y"
  then have "(2::rat) powi y \<le> 2 powi x"
    by (intro power_int_increasing) simp_all
  with assms show False by simp
qed

lemma ilog2_mono:
  assumes "0 < p" "p \<le> q"
  shows "ilog2 p \<le> ilog2 q"
proof -
  from assms have q: "0 < q" by simp
  from ilog2_bounds [OF assms(1)] ilog2_bounds [OF q] assms(2)
  have "(2::rat) powi (ilog2 p) < 2 powi (ilog2 q + 1)" by linarith
  then have "ilog2 p < ilog2 q + 1" by (rule powi_less_D)
  then show ?thesis by simp
qed

lemma powi_quot:
  fixes k j :: int
  assumes "j \<le> k"
  shows "(2::rat) powi k / 2 powi j = of_int (2 ^ nat (k - j))"
proof -
  have "(2::rat) powi k / 2 powi j = 2 powi (k - j)"
    by (simp add: power_int_diff)
  also from assms have "\<dots> = 2 ^ nat (k - j)"
    by (simp add: power_int_def)
  finally show ?thesis by simp
qed

lemma roundDouble_pos_unfold:
  assumes "0 < q"
  shows "roundDouble q =
     (if (2::rat) ^ 1024 \<le> of_int (roundHalfEven (q / 2 powi (max (ilog2 q - 52) (- 1074)))) * 2 powi (max (ilog2 q - 52) (- 1074))
      then PosInf
      else Fin (of_int (roundHalfEven (q / 2 powi (max (ilog2 q - 52) (- 1074)))) * 2 powi (max (ilog2 q - 52) (- 1074))))"
  using assms by (simp add: roundDouble_def Let_def)

lemma roundDouble_grid:
  assumes "0 < x" "x = of_int n * 2 powi k" "max (ilog2 x - 52) (- 1074) \<le> k" "x < 2 ^ 1024"
  shows "roundDouble x = Fin x"
proof -
  define j where "j = max (ilog2 x - 52) (- 1074)"
  from assms(3) have jk: "j \<le> k" by (simp add: j_def)
  have "x / 2 powi j = of_int n * (2 powi k / 2 powi j)"
    by (simp add: assms(2))
  also have "\<dots> = of_int (n * 2 ^ nat (k - j))"
    by (simp add: powi_quot [OF jk])
  finally have "roundHalfEven (x / 2 powi j) = n * 2 ^ nat (k - j)"
    by (simp only: roundHalfEven_int)
  then have "of_int (roundHalfEven (x / 2 powi j)) * (2::rat) powi j = of_int n * (of_int (2 ^ nat (k - j)) * 2 powi j)"
    by simp
  also have "of_int (2 ^ nat (k - j)) * (2::rat) powi j = 2 powi k"
    using powi_quot [OF jk] by (simp add: field_simps)
  finally have "of_int (roundHalfEven (x / 2 powi j)) * 2 powi j = x"
    by (simp add: assms(2))
  with assms(1,4) show ?thesis
    by (simp add: roundDouble_pos_unfold j_def [symmetric])
qed

lemma roundDouble_le:
  assumes "0 < q" "q \<le> b" "roundDouble b = Fin b"
  shows "\<exists>v. roundDouble q = Fin v \<and> 0 \<le> v \<and> v \<le> b"
proof -
  from assms have bpos: "0 < b" by simp
  define j where "j = max (ilog2 q - 52) (- 1074)"
  define k where "k = max (ilog2 b - 52) (- 1074)"
  define n where "n = roundHalfEven (b / 2 powi k)"
  from ilog2_mono [OF assms(1,2)] have jk: "j \<le> k" by (simp add: j_def k_def)
  from assms(3) bpos have b: "of_int n * 2 powi k = b" and fin: "b < 2 ^ 1024"
    by (simp_all add: roundDouble_pos_unfold k_def [symmetric] n_def [symmetric] split: if_splits)
  have pj: "(0::rat) < 2 powi j" by simp
  have "b / 2 powi j = of_int n * (2 powi k / 2 powi j)"
    by (simp add: b [symmetric])
  also have "\<dots> = of_int (n * 2 ^ nat (k - j))"
    by (simp add: powi_quot [OF jk])
  finally have bj: "b / 2 powi j = of_int (n * 2 ^ nat (k - j))" .
  from assms(2) pj have "q / 2 powi j \<le> b / 2 powi j"
    by (simp add: divide_right_mono)
  with bj have "roundHalfEven (q / 2 powi j) \<le> n * 2 ^ nat (k - j)"
    by (simp only: roundHalfEven_le)
  then have "(of_int (roundHalfEven (q / 2 powi j)) :: rat) \<le> of_int (n * 2 ^ nat (k - j))"
    by (simp only: of_int_le_iff)
  with bj have "(of_int (roundHalfEven (q / 2 powi j)) :: rat) \<le> b / 2 powi j"
    by simp
  with pj have le: "of_int (roundHalfEven (q / 2 powi j)) * 2 powi j \<le> b"
    by (simp add: field_simps)
  from assms(1) pj have "of_int 0 \<le> q / 2 powi j" by simp
  then have "0 \<le> roundHalfEven (q / 2 powi j)" by (rule roundHalfEven_ge)
  then have ge: "(0::rat) \<le> of_int (roundHalfEven (q / 2 powi j)) * 2 powi j"
    by simp
  from le fin have "\<not> (2::rat) ^ 1024 \<le> of_int (roundHalfEven (q / 2 powi j)) * 2 powi j"
    by simp
  with assms(1) le ge show ?thesis
    by (simp add: roundDouble_pos_unfold j_def [symmetric])
qed

lemma roundDouble_neg: "roundDouble (- q) = num_neg (roundDouble q)"
  by (simp add: roundDouble_def Let_def)

lemma roundDouble_sign_pos:
  assumes "0 < q"
  shows "roundDouble q = PosInf \<or> (\<exists>v. roundDouble q = Fin v \<and> 0 \<le> v)"
proof -
  define j where "j = max (ilog2 q - 52) (- 1074)"
  from assms have "of_int 0 \<le> q / 2 powi j" by simp
  then have "0 \<le> roundHalfEven (q / 2 powi j)" by (rule roundHalfEven_ge)
  then have "(0::rat) \<le> of_int (roundHalfEven (q / 2 powi j)) * 2 powi j"
    by simp
  with assms show ?thesis
    by (simp add: roundDouble_pos_unfold j_def [symmetric])
qed

lemma roundDouble_sign_neg:
  assumes "q < 0"
  shows "roundDouble q = NegInf \<or> (\<exists>v. roundDouble q = Fin v \<and> v \<le> 0)"
proof -
  from assms have "0 < - q" by simp
  from roundDouble_sign_pos [OF this] have "num_neg (roundDouble q) = PosInf \<or>
      (\<exists>v. num_neg (roundDouble q) = Fin v \<and> 0 \<le> v)"
    by (simp only: roundDouble_neg)
  then show ?thesis by (cases "roundDouble q") auto
qed


lemma roundDouble_overflow:
  assumes "2 ^ 1024 \<le> q"
  shows "roundDouble q = PosInf"
proof -
  from assms have qpos: "0 < q" by (simp add: less_le_trans [of 0 "2 ^ 1024"])
  define e where "e = ilog2 q"
  define j where "j = max (e - 52) (- 1074)"
  from ilog2_bounds [OF qpos] have lo: "2 powi e \<le> q" and hi: "q < 2 powi (e + 1)"
    by (simp_all add: e_def)
  have "(2::rat) powi 1024 = 2 ^ 1024" by (simp add: power_int_def)
  with assms hi have "(2::rat) powi 1024 < 2 powi (e + 1)" by simp
  then have e: "1024 \<le> e" using powi_less_D [of 1024 "e + 1"] by simp
  then have j: "j = e - 52" by (simp add: j_def)
  have pj: "(0::rat) < 2 powi j" by simp
  have "(2::rat) powi e / 2 powi j = of_int (2 ^ nat (e - j))"
    by (rule powi_quot) (simp add: j)
  moreover from lo pj have "(2::rat) powi e / 2 powi j \<le> q / 2 powi j"
    by (simp add: divide_right_mono)
  ultimately have "of_int (2 ^ nat (e - j)) \<le> q / 2 powi j" by simp
  then have "2 ^ nat (e - j) \<le> roundHalfEven (q / 2 powi j)" by (rule roundHalfEven_ge)
  then have "(of_int (2 ^ nat (e - j)) :: rat) \<le> of_int (roundHalfEven (q / 2 powi j))"
    by (simp only: of_int_le_iff)
  with pj have c1: "(of_int (2 ^ nat (e - j)) :: rat) * 2 powi j \<le> of_int (roundHalfEven (q / 2 powi j)) * 2 powi j"
    by (simp only: mult_le_cancel_right_pos)
  have c2: "(of_int (2 ^ nat (e - j)) :: rat) * 2 powi j = 2 powi e"
    using powi_quot [of j e] by (simp add: j field_simps)
  from c1 have b: "(2::rat) powi e \<le> of_int (roundHalfEven (q / 2 powi j)) * 2 powi j"
    by (simp only: c2)
  from e have "(2::rat) powi 1024 \<le> 2 powi e"
    by (intro power_int_increasing) simp_all
  then have a: "(2::rat) ^ 1024 \<le> 2 powi e"
    by (simp only: \<open>(2::rat) powi 1024 = 2 ^ 1024\<close>)
  from a b have "(2::rat) ^ 1024 \<le> of_int (roundHalfEven (q / 2 powi j)) * 2 powi j"
    by (rule order_trans)
  with qpos show ?thesis
    by (simp add: roundDouble_pos_unfold e_def [symmetric] j_def [symmetric])
qed

lemma roundDouble_idem_pos:
  assumes "0 < q" "roundDouble q = Fin x"
  shows "roundDouble x = Fin x"
proof -
  define e where "e = ilog2 q"
  define j where "j = max (e - 52) (- 1074)"
  define n where "n = roundHalfEven (q / 2 powi j)"
  from assms have x: "x = of_int n * 2 powi j" and fin: "x < 2 ^ 1024"
    by (simp_all add: roundDouble_pos_unfold e_def [symmetric] j_def [symmetric] n_def [symmetric]
        split: if_splits)
  from ilog2_bounds [OF assms(1)] have lo: "2 powi e \<le> q" and hi: "q < 2 powi (e + 1)"
    by (simp_all add: e_def)
  have pj: "(0::rat) < 2 powi j" by simp
  from assms(1) pj have "of_int 0 \<le> q / 2 powi j" by simp
  then have n0: "0 \<le> n" unfolding n_def by (rule roundHalfEven_ge)
  show ?thesis
  proof (cases "n = 0")
    case True
    with x show ?thesis by (simp add: roundDouble_def)
  next
    case False
    with n0 have n1: "1 \<le> n" by simp
    then have "(1::rat) \<le> of_int n" by simp
    with pj have xpos: "0 < x" unfolding x by (simp add: zero_less_mult_iff)
    have ej: "j \<le> e + 1"
    proof (rule ccontr)
      assume "\<not> j \<le> e + 1"
      then have "e + 1 - j \<le> - 1" by simp
      then have "(2::rat) powi (e + 1 - j) \<le> 2 powi (- 1)"
        by (intro power_int_increasing) simp_all
      moreover from hi pj have "q / 2 powi j < 2 powi (e + 1) / 2 powi j"
        by (simp add: divide_strict_right_mono)
      then have "q / 2 powi j < 2 powi (e + 1 - j)"
        by (simp add: power_int_diff)
      moreover have "(2::rat) powi (- 1) = 1 / 2" by (simp add: power_int_minus)
      ultimately have "q / 2 powi j < 1 / 2" by linarith
      moreover from assms(1) pj have "0 \<le> q / 2 powi j" by simp
      ultimately have "\<bar>q / 2 powi j - of_int 0\<bar> < 1 / 2"
        by (simp only: of_int_0 diff_zero abs_of_nonneg)
      then have "n = 0" unfolding n_def by (rule roundHalfEven_near)
      with False show False by simp
    qed
    have "(2::rat) powi (e + 1) / 2 powi j = of_int (2 ^ nat (e + 1 - j))"
      using ej by (rule powi_quot)
    moreover from hi pj have "q / 2 powi j \<le> 2 powi (e + 1) / 2 powi j"
      by (simp add: divide_right_mono)
    ultimately have "q / 2 powi j \<le> of_int (2 ^ nat (e + 1 - j))" by simp
    then have "n \<le> 2 ^ nat (e + 1 - j)" unfolding n_def by (rule roundHalfEven_le)
    then have "(of_int n :: rat) \<le> of_int (2 ^ nat (e + 1 - j))"
      by (simp only: of_int_le_iff)
    with pj have d1: "(of_int n :: rat) * 2 powi j \<le> of_int (2 ^ nat (e + 1 - j)) * 2 powi j"
      by (simp only: mult_le_cancel_right_pos)
    have d2: "(of_int (2 ^ nat (e + 1 - j)) :: rat) * 2 powi j = 2 powi (e + 1)"
      using powi_quot [OF ej] by (simp add: field_simps)
    from d1 have xle: "x \<le> 2 powi (e + 1)" by (simp only: d2 x)
    show ?thesis
    proof (cases "x < 2 powi (e + 1)")
      case True
      from ilog2_bounds [OF xpos] True have "(2::rat) powi (ilog2 x) < 2 powi (e + 1)"
        by linarith
      then have "ilog2 x < e + 1" by (rule powi_less_D)
      then have "max (ilog2 x - 52) (- 1074) \<le> j" by (simp add: j_def)
      from roundDouble_grid [OF xpos x this fin] show ?thesis .
    next
      case False
      with xle have xe: "x = 2 powi (e + 1)" by simp
      then have "2 powi (e + 1) \<le> x" "x < 2 powi (e + 1 + 1)"
        by (simp_all add: power_int_add)
      with xpos have "ilog2 x = e + 1" by (intro ilog2_unique)
      moreover have "- 1074 \<le> j" by (simp add: j_def)
      ultimately have "max (ilog2 x - 52) (- 1074) \<le> e + 1" using ej by simp
      moreover from xe have "x = of_int 1 * 2 powi (e + 1)" by simp
      ultimately show ?thesis using xpos fin by (intro roundDouble_grid [where n = 1 and k = "e + 1"])
    qed
  qed
qed

lemma roundDouble_zero: "roundDouble 0 = Fin 0"
  by (simp add: roundDouble_def)

lemma rd_1: "roundDouble 1 = Fin 1"
  using roundDouble_pos [of 1 0 "- 52" 4503599627370496] by simp

lemma rd_100: "roundDouble 100 = Fin 100"
  using roundDouble_pos [of 100 6 "- 46" 7036874417766400] by simp

lemma clamp_nonpos:
  "z = NegInf \<or> (\<exists>w. z = Fin w \<and> w \<le> 0) \<Longrightarrow> (if num_less z (Fin 0) then Fin 0 else z) = Fin 0"
  by auto

lemma mul_100_nonpos:
  assumes "t = NegInf \<or> (\<exists>v. t = Fin v \<and> v \<le> 0)"
  shows "num_mul t (Fin 100) = NegInf \<or> (\<exists>w. num_mul t (Fin 100) = Fin w \<and> w \<le> 0)"
  using assms
proof
  assume "t = NegInf"
  then show ?thesis by simp
next
  assume "\<exists>v. t = Fin v \<and> v \<le> 0"
  then obtain v where t: "t = Fin v" and v: "v \<le> 0" by blast
  show ?thesis
  proof (cases "v = 0")
    case True
    with t show ?thesis by (simp add: roundDouble_zero)
  next
    case False
    with v have "v * 100 < 0" by simp
    from roundDouble_sign_neg [OF this] t show ?thesis by simp
  qed
qed

lemma div_nonpos:
  assumes "0 < x" "s = NegInf \<or> (\<exists>v. s = Fin v \<and> v \<le> 0)"
  shows "num_div s (Fin x) = NegInf \<or> (\<exists>w. num_div s (Fin x) = Fin w \<and> w \<le> 0)"
  using assms(2)
proof
  assume "s = NegInf"
  with assms(1) show ?thesis by simp
next
  assume "\<exists>v. s = Fin v \<and> v \<le> 0"
  then obtain v where s: "s = Fin v" and v: "v \<le> 0" by blast
  show ?thesis
  proof (cases "v = 0")
    case True
    with s assms(1) show ?thesis by (simp add: roundDouble_zero)
  next
    case False
    with v assms(1) have "v / x < 0" by (simp add: divide_neg_pos)
    from roundDouble_sign_neg [OF this] s assms(1) show ?thesis by simp
  qed
qed

lemma desconto_range:
  assumes "0 < x" "roundDouble x = Fin x" "m = PosInf \<or> (\<exists>y. m = Fin y \<and> 0 \<le> y)"
  shows "\<exists>q. desconto (Fin x) m = Fin q \<and> 0 \<le> q \<and> q \<le> 100"
proof -
  let ?s = "num_sub (Fin x) m"
  have neg: "desconto (Fin x) m = Fin 0" if "?s = NegInf \<or> (\<exists>v. ?s = Fin v \<and> v \<le> 0)"
  proof -
    from div_nonpos [OF assms(1) that] have "num_div ?s (Fin x) = NegInf \<or>
        (\<exists>w. num_div ?s (Fin x) = Fin w \<and> w \<le> 0)" .
    from clamp_nonpos [OF mul_100_nonpos [OF this]] show ?thesis
      by (simp add: desconto_def Let_def)
  qed
  from assms(3) show ?thesis
  proof
    assume "m = PosInf"
    then have "?s = NegInf" by simp
    with neg show ?thesis by simp
  next
    assume "\<exists>y. m = Fin y \<and> 0 \<le> y"
    then obtain y where m: "m = Fin y" and y: "0 \<le> y" by blast
    then have s: "?s = roundDouble (x - y)" by simp
    show ?thesis
    proof (cases "0 < x - y")
      case False
      have "?s = NegInf \<or> (\<exists>v. ?s = Fin v \<and> v \<le> 0)"
      proof (cases "x - y = 0")
        case True
        with s show ?thesis by (simp add: roundDouble_zero)
      next
        case nz: False
        with False have "x - y < 0" by simp
        from roundDouble_sign_neg [OF this] s show ?thesis by simp
      qed
      with neg show ?thesis by simp
    next
      case True
      from y have "x - y \<le> x" by simp
      from roundDouble_le [OF True this assms(2)] s
      obtain v where sv: "?s = Fin v" and v0: "0 \<le> v" and vx: "v \<le> x" by auto
      show ?thesis
      proof (cases "v = 0")
        case True
        with sv neg show ?thesis by simp
      next
        case False
        with v0 assms(1) have p: "0 < v / x" by simp
        from vx assms(1) have "v / x \<le> 1" by simp
        from roundDouble_le [OF p this rd_1]
        obtain t where t: "roundDouble (v / x) = Fin t" and t0: "0 \<le> t" and t1: "t \<le> 1" by auto
        from sv t assms(1) have dv: "num_div ?s (Fin x) = Fin t" by simp
        show ?thesis
        proof (cases "t = 0")
          case True
          with dv show ?thesis by (simp add: desconto_def Let_def roundDouble_zero)
        next
          case False
          with t0 have p2: "0 < t * 100" by simp
          from t1 have "t * 100 \<le> 100" by simp
          from roundDouble_le [OF p2 this rd_100]
          obtain w where w: "roundDouble (t * 100) = Fin w" and w0: "0 \<le> w" and w1: "w \<le> 100"
            by auto
          with dv show ?thesis by (simp add: desconto_def Let_def)
        qed
      qed
    qed
  qed
qed

lemma desconto_PosInf: "desconto PosInf m = NaN"
  by (cases m) (simp_all add: desconto_def Let_def)

section \<open>Properties of \<^verbatim>\<open>parseBRL\<close>\<close>

lemma roundDouble_not_NaN: "roundDouble q \<noteq> NaN"
  by (simp add: roundDouble_def Let_def)

lemma cleanBRL_chars: "c \<in> set (cleanBRL s) \<Longrightarrow> isDigit c \<or> c = 44 \<or> c = 46 \<or> c = 45"
proof -
  have r: "set (replaceFirstUnit a b t) \<subseteq> insert b (set t)" for a b t
    by (induction t) auto
  assume "c \<in> set (cleanBRL s)"
  with r [of 44 46] show ?thesis
    by (fastforce simp: cleanBRL_def)
qed

lemma parseFloat_NaN_iff:
  assumes "\<forall>c \<in> set u. isDigit c \<or> c = 44 \<or> c = 46 \<or> c = 45"
  shows "parseFloat u = NaN \<longleftrightarrow> \<not> startsNumeric u"
proof -
  have ws: "dropWhile isWhiteSpace u = u"
  proof (cases u)
    case Nil
    then show ?thesis by simp
  next
    case (Cons c r)
    with assms have "isDigit c \<or> c = 44 \<or> c = 46 \<or> c = 45" by simp
    then have "\<not> isWhiteSpace c" by (auto simp: isDigit_def isWhiteSpace_def)
    with Cons show ?thesis by simp
  qed
  define w where "w = (if u \<noteq> [] \<and> hd u = 45 then tl u else u)"
  have w_chars: "\<forall>c \<in> set w. isDigit c \<or> c = 44 \<or> c = 46 \<or> c = 45"
    using assms by (cases u) (auto simp: w_def)
  have plus: "(if u \<noteq> [] \<and> (hd u = 45 \<or> hd u = 43) then tl u else u) = w"
  proof (cases u)
    case Nil
    then show ?thesis by (simp add: w_def)
  next
    case (Cons c r)
    with assms have "c \<noteq> 43" by (auto simp: isDigit_def)
    with Cons show ?thesis by (simp add: w_def)
  qed
  have inf: "\<not> startsWith w (str ''Infinity'')"
  proof (cases w)
    case Nil
    then show ?thesis by (simp add: startsWith_def str_def)
  next
    case (Cons c r)
    with w_chars have "c \<noteq> 73" by (auto simp: isDigit_def)
    with Cons show ?thesis by (auto simp: startsWith_def str_def)
  qed
  have "parseFloat u = NaN \<longleftrightarrow>
      takeWhile isDigit w = [] \<and>
      (if dropWhile isDigit w \<noteq> [] \<and> hd (dropWhile isDigit w) = 46
       then takeWhile isDigit (tl (dropWhile isDigit w)) else []) = []"
    by (simp add: parseFloat_def Let_def ws plus inf roundDouble_not_NaN)
  also have "\<dots> \<longleftrightarrow> \<not> (w \<noteq> [] \<and> (isDigit (hd w) \<or> (hd w = 46 \<and> tl w \<noteq> [] \<and> isDigit (hd (tl w)))))"
  proof (cases w)
    case Nil
    then show ?thesis by simp
  next
    case (Cons c r)
    show ?thesis
    proof (cases "isDigit c")
      case True
      with Cons show ?thesis by simp
    next
      case False
      with Cons show ?thesis
        by (cases r) (auto simp: takeWhile_eq_Nil_iff)
    qed
  qed
  finally show ?thesis
    by (simp add: startsNumeric_def Let_def w_def)
qed

lemma parseBRL_None_iff: "parseBRL (Some t) = None \<longleftrightarrow> \<not> startsNumeric (cleanBRL t)"
  using parseFloat_NaN_iff [of "cleanBRL t"] cleanBRL_chars [of _ t]
  by (auto simp: parseBRL_def Let_def)

lemma parseBRL_not_NaN: "parseBRL s \<noteq> Some NaN"
  by (simp add: parseBRL_def Let_def)

lemma startsNumeric_digit: "startsNumeric u \<Longrightarrow> \<exists>c \<in> set u. isDigit c"
proof -
  assume a: "startsNumeric u"
  show ?thesis
  proof (cases u)
    case Nil
    with a show ?thesis by (simp add: startsNumeric_def)
  next
    case (Cons c r)
    with a show ?thesis
      by (cases r; cases "tl r") (auto simp: startsNumeric_def Let_def split: if_splits)
  qed
qed

lemma cleanBRL_digits: "c \<in> set (cleanBRL t) \<Longrightarrow> isDigit c \<Longrightarrow> c \<in> set t"
proof -
  have r: "set (replaceFirstUnit a b s) \<subseteq> insert b (set s)" for a b s
    by (induction s) auto
  assume "c \<in> set (cleanBRL t)" "isDigit c"
  with r [of 44 46] show ?thesis
    by (fastforce simp: cleanBRL_def isDigit_def)
qed

lemma parseBRL_no_digit: "\<forall>c \<in> set t. \<not> isDigit c \<Longrightarrow> parseBRL (Some t) = None"
  using startsNumeric_digit [of "cleanBRL t"] cleanBRL_digits [of _ t]
  by (auto simp: parseBRL_None_iff)

lemma parse_1234_56: "parseBRL (Some (str ''1.234,56'')) = Some (roundDouble (123456 / 100))"
  by (simp add: parseBRL_def cleanBRL_def str_def isDigit_def parseFloat_def startsWith_def
      isWhiteSpace_def digitsVal_def exponentPart_def Let_def roundDouble_not_NaN)

lemma parse_1_2_3: "parseBRL (Some (str ''1,2,3'')) = Some (roundDouble (12 / 10))"
  by (simp add: parseBRL_def cleanBRL_def str_def isDigit_def parseFloat_def startsWith_def
      isWhiteSpace_def digitsVal_def exponentPart_def Let_def roundDouble_not_NaN)

lemma parse_12abc: "parseBRL (Some (str ''12abc'')) = Some (roundDouble 12)"
  by (simp add: parseBRL_def cleanBRL_def str_def isDigit_def parseFloat_def startsWith_def
      isWhiteSpace_def digitsVal_def exponentPart_def Let_def roundDouble_not_NaN)

lemma rd_6_5: "roundDouble (12 / 10) = Fin (5404319552844595 / 4503599627370496)"
  using roundDouble_pos [of "12 / 10" 0 "- 52" 5404319552844595] by simp

lemma rd_12: "roundDouble 12 = Fin 12"
  using roundDouble_pos [of 12 3 "- 49" 6755399441055744] by simp

section \<open>Properties of the values block\<close>

lemma num_less_irrefl: "\<not> num_less a a"
  by (cases a) auto

lemma num_less_trans: "num_less a b \<Longrightarrow> num_less b c \<Longrightarrow> num_less a c"
  by (cases a; cases b; cases c) auto

lemma min2_PosInf: "a \<noteq> NaN \<Longrightarrow> min2 PosInf a = a"
  by (cases a) (auto simp: min2_def)

lemma min2_cases: "a \<noteq> NaN \<Longrightarrow> b \<noteq> NaN \<Longrightarrow> min2 a b = (if num_less b a then b else a)"
  by (simp add: min2_def)

lemma mathMin_two:
  "v1 \<noteq> NaN \<Longrightarrow> v2 \<noteq> NaN \<Longrightarrow> mathMin [v1, v2] = (if num_less v2 v1 then v2 else v1)"
proof -
  assume v: "v1 \<noteq> NaN" "v2 \<noteq> NaN"
  from v(1) have "min2 PosInf v1 = v1" by (rule min2_PosInf)
  then have "mathMin [v1, v2] = min2 v1 v2" by (simp add: mathMin_def)
  with v show ?thesis by (simp add: min2_cases)
qed

lemma foldl_min2:
  assumes "acc \<noteq> NaN" "NaN \<notin> set xs"
  shows "foldl min2 acc xs \<noteq> NaN \<and> foldl min2 acc xs \<in> insert acc (set xs) \<and>
         (\<forall>x \<in> insert acc (set xs). \<not> num_less x (foldl min2 acc xs))"
  using assms
proof (induction xs arbitrary: acc)
  case Nil
  then show ?case by (simp add: num_less_irrefl)
next
  case (Cons b xs)
  let ?a = "min2 acc b"
  from Cons.prems have b: "b \<noteq> NaN" and xs: "NaN \<notin> set xs" by auto
  with Cons.prems have a: "?a = (if num_less b acc then b else acc)" by (simp add: min2_cases)
  with b Cons.prems have "?a \<noteq> NaN" by simp
  from Cons.IH [OF this xs] have ih1: "foldl min2 ?a xs \<noteq> NaN"
    and ih2: "foldl min2 ?a xs \<in> insert ?a (set xs)"
    and ih3: "\<forall>x \<in> insert ?a (set xs). \<not> num_less x (foldl min2 ?a xs)"
    by blast+
  have le_a: "\<not> num_less acc (foldl min2 ?a xs) \<and> \<not> num_less b (foldl min2 ?a xs)"
  proof (cases "num_less b acc")
    case True
    with a ih3 have nb: "\<not> num_less b (foldl min2 ?a xs)" by simp
    with True show ?thesis by (blast intro: num_less_trans)
  next
    case False
    with a ih3 have na: "\<not> num_less acc (foldl min2 ?a xs)" by simp
    have "\<not> num_less b (foldl min2 ?a xs)"
    proof
      assume l: "num_less b (foldl min2 ?a xs)"
      from b Cons.prems(1) ih1 False na l show False
        by (cases b; cases acc; cases "foldl min2 ?a xs") auto
    qed
    with na show ?thesis by simp
  qed
  from ih2 a have "foldl min2 ?a xs \<in> insert acc (set (b # xs))" by (auto split: if_splits)
  with ih1 ih3 le_a show ?case by simp
qed

lemma mathMin_least:
  assumes "NaN \<notin> set xs" "xs \<noteq> []"
  shows "mathMin xs \<in> set xs \<and> (\<forall>x \<in> set xs. \<not> num_less x (mathMin xs))"
proof -
  from foldl_min2 [of PosInf xs] assms(1)
  have n: "mathMin xs \<noteq> NaN" and m: "mathMin xs \<in> insert PosInf (set xs)"
    and l: "\<forall>x \<in> set xs. \<not> num_less x (mathMin xs)"
    by (simp_all add: mathMin_def)
  have "mathMin xs \<in> set xs"
  proof (rule ccontr)
    assume c: "mathMin xs \<notin> set xs"
    with m have p: "mathMin xs = PosInf" by simp
    from assms(2) obtain x where x: "x \<in> set xs" by (cases xs) auto
    with l p have "\<not> num_less x PosInf" by simp
    moreover from x assms(1) have "x \<noteq> NaN" by auto
    ultimately have "x = PosInf" by (cases x) auto
    with x c p show False by simp
  qed
  with l show ?thesis by simp
qed

lemma set_candidatos: "set (candidatos vs) = {v. Some v \<in> set vs}"
  by (induction vs) (auto simp: candidatos_def split: option.splits)

lemma minimoGeral_least:
  assumes "Some NaN \<notin> set vs" "minimoGeral vs = Some m"
  shows "Some m \<in> set vs \<and> (\<forall>v. Some v \<in> set vs \<longrightarrow> \<not> num_less v m)"
proof -
  from assms(2) have ne: "candidatos vs \<noteq> []" and m: "m = mathMin (candidatos vs)"
    by (auto simp: minimoGeral_def split: if_splits)
  from assms(1) have "NaN \<notin> set (candidatos vs)" by (simp add: set_candidatos)
  from mathMin_least [OF this ne] m show ?thesis
    by (simp add: set_candidatos)
qed

lemma minimoGeral_None: "minimoGeral vs = None \<longleftrightarrow> (\<forall>v \<in> set vs. v = None)"
proof -
  have "candidatos vs = [] \<longleftrightarrow> (\<forall>v \<in> set vs. v = None)"
    by (induction vs) (auto simp: candidatos_def split: option.splits)
  then show ?thesis by (simp add: minimoGeral_def)
qed

lemma parseBRL_empty: "parseBRL (Some []) = None"
  by (simp add: parseBRL_no_digit)

lemma vMin_Some_match:
  "vMin1De text = Some v \<Longrightarrow> matchValor reMin1 text \<noteq> None"
  "vMin2De text = Some v \<Longrightarrow> matchValor reMin2 text \<noteq> None"
  by (cases "matchValor reMin1 text"; simp add: vMin1De_def grupo_def parseBRL_empty)
     (cases "matchValor reMin2 text"; simp add: vMin2De_def grupo_def parseBRL_empty)

lemma generico_ignored:
  "matchValor reMin1 text \<noteq> None \<or> matchValor reMin2 text \<noteq> None \<Longrightarrow>
   genericoDe text = [] \<and> vMinGeralDe text = minimoGeral [vMin1De text, vMin2De text]"
  by (auto simp: genericoDe_def vMinGeralDe_def minimoGeral_def candidatos_def parseBRL_empty
      split: option.splits)

lemma minimo_two:
  assumes "vMin1De text = Some v1" "vMin2De text = Some v2"
  shows "vMinGeralDe text = Some (if num_less v2 v1 then v2 else v1)"
proof -
  from assms(1) have "matchValor reMin1 text \<noteq> None" by (rule vMin_Some_match)
  then have "vMinGeralDe text = minimoGeral [vMin1De text, vMin2De text]"
    by (simp add: generico_ignored)
  moreover from assms have "v1 \<noteq> NaN" "v2 \<noteq> NaN"
    using parseBRL_not_NaN by (auto simp: vMin1De_def vMin2De_def)
  ultimately show ?thesis
    using assms by (simp add: minimoGeral_def candidatos_def mathMin_two)
qed

lemmas parse_eval = parseBRL_def cleanBRL_def str_def isDigit_def parseFloat_def startsWith_def
  isWhiteSpace_def digitsVal_def exponentPart_def Let_def roundDouble_not_NaN

lemmas match_eval = reAval_def reMin1_def reMin2_def reMinGeneric_def str_def matchValorAt_def
  startsWithCI_def canonUnit_def isWhiteSpace_def isValorChar_def isDigit_def

lemmas trim_eval = trim_def trimStart_def trimEnd_def isWhiteSpace_def

lemma rd_90000: "roundDouble 90000 = Fin 90000"
  using roundDouble_pos [of 90000 16 "- 36" 6184752906240000] by simp

lemma rd_60000: "roundDouble 60000 = Fin 60000"
  using roundDouble_pos [of 60000 15 "- 37" 8246337208320000] by simp

lemma parse_100000: "parseBRL (Some (str ''100.000,00'')) = Some (Fin 100000)"
  by (simp add: parse_eval rd_100000)

lemma parse_80000: "parseBRL (Some (str ''80.000,00'')) = Some (Fin 80000)"
  by (simp add: parse_eval rd_80000)

lemma parse_90000: "parseBRL (Some (str ''90.000,00'')) = Some (Fin 90000)"
  by (simp add: parse_eval rd_90000)

lemma parse_60000: "parseBRL (Some (str ''60.000,00'')) = Some (Fin 60000)"
  by (simp add: parse_eval rd_60000)

lemma parse_zero: "parseBRL (Some (str ''0,00'')) = Some (Fin 0)"
  by (simp add: parse_eval roundDouble_def)

lemma grupo_eval:
  "grupo None = []"
  "grupo (Some (str ''100.000,00'')) = str ''100.000,00''"
  "grupo (Some (str ''80.000,00'')) = str ''80.000,00''"
  "grupo (Some (str ''90.000,00'')) = str ''90.000,00''"
  "grupo (Some (str ''60.000,00'')) = str ''60.000,00''"
  "grupo (Some (str ''50.000,00'')) = str ''50.000,00''"
  "grupo (Some (str ''0,00'')) = str ''0,00''"
  by (simp_all add: grupo_def str_def trim_eval)

lemma texto_generico:
  "textoValores pValores_generico =
     str ''Valor de avalia'' @ [231, 227] @ str ''o: R$ 100.000,00 Valor m'' @ [237] @
     str ''nimo de venda: R$ 80.000,00''"
  by (simp add: textoValores_def pValores_generico_def str_def trim_eval)

lemma match_generico:
  "matchValor reAval (textoValores pValores_generico) = Some (str ''100.000,00'') \<and>
   matchValor reMin1 (textoValores pValores_generico) = None \<and>
   matchValor reMin2 (textoValores pValores_generico) = None \<and>
   matchValor reMinGeneric (textoValores pValores_generico) = Some (str ''80.000,00'')"
  unfolding texto_generico by (simp add: match_eval)

lemma texto_zero:
  "textoValores pValores_aval_zero =
     str ''Valor de avalia'' @ [231, 227] @ str ''o: R$ 0,00 Valor m'' @ [237] @
     str ''nimo de venda: R$ 80.000,00''"
  by (simp add: textoValores_def pValores_aval_zero_def str_def trim_eval)

lemma match_zero:
  "matchValor reAval (textoValores pValores_aval_zero) = Some (str ''0,00'') \<and>
   matchValor reMin1 (textoValores pValores_aval_zero) = None \<and>
   matchValor reMin2 (textoValores pValores_aval_zero) = None \<and>
   matchValor reMinGeneric (textoValores pValores_aval_zero) = Some (str ''80.000,00'')"
  unfolding texto_zero by (simp add: match_eval)

lemma texto_dois:
  "textoValores pValores_dois_leiloes =
     str ''Valor de avalia'' @ [231, 227] @ str ''o: R$ 100.000,00 Valor m'' @ [237] @
     str ''nimo de venda 1'' @ [186] @ str '' Leil'' @ [227] @ str ''o: R$ 90.000,00 Valor m'' @ [237] @
     str ''nimo de venda 2'' @ [186] @ str '' Leil'' @ [227] @ str ''o: R$ 60.000,00 Valor m'' @ [237] @
     str ''nimo de venda: R$ 50.000,00''"
  by (simp add: textoValores_def pValores_dois_leiloes_def str_def trim_eval)

lemma match_dois:
  "matchValor reAval (textoValores pValores_dois_leiloes) = Some (str ''100.000,00'') \<and>
   matchValor reMin1 (textoValores pValores_dois_leiloes) = Some (str ''90.000,00'') \<and>
   matchValor reMin2 (textoValores pValores_dois_leiloes) = Some (str ''60.000,00'') \<and>
   matchValor reMinGeneric (textoValores pValores_dois_leiloes) = Some (str ''50.000,00'')"
  unfolding texto_dois by (simp add: match_eval)

lemma decimalDigits_small: "n < 10 \<Longrightarrow> decimalDigits n = [48 + n]"
  by (subst decimalDigits.simps) simp

lemma decimalDigits_step: "10 \<le> n \<Longrightarrow> decimalDigits n = decimalDigits (n div 10) @ [48 + n mod 10]"
  by (subst decimalDigits.simps) simp

lemma toFixed2_Fin:
  assumes "0 \<le> q" "q < 10 ^ 21" "of_int n \<le> q * 100 + 1 / 2" "q * 100 + 1 / 2 < of_int n + 1"
    and "decimalDigits (nat n) = ds"
  shows "toFixed2 (Fin q) =
     take (length (replicate (3 - length ds) 48 @ ds) - 2) (replicate (3 - length ds) 48 @ ds)
     @ [46] @ drop (length (replicate (3 - length ds) 48 @ ds) - 2) (replicate (3 - length ds) 48 @ ds)"
proof -
  from assms(3,4) have "\<lfloor>q * 100 + 1 / 2\<rfloor> = n" by (intro floor_unique) simp_all
  with assms(1,2,5) show ?thesis
    by (simp add: toFixed2_def Let_def)
qed

lemma formatBR_20: "formatBR (Fin 20) = str ''20,00''"
proof -
  have "decimalDigits (nat 2000) = [50, 48, 48, 48]"
    by (simp add: decimalDigits_small decimalDigits_step)
  from toFixed2_Fin [of 20 2000, OF _ _ _ _ this] show ?thesis
    by (simp add: formatBR_def str_def)
qed

lemma formatBR_60000: "formatBR (Fin 60000) = str ''60000,00''"
proof -
  have "decimalDigits (nat 6000000) = [54, 48, 48, 48, 48, 48, 48]"
    by (simp add: decimalDigits_small decimalDigits_step)
  from toFixed2_Fin [of 60000 6000000, OF _ _ _ _ this] show ?thesis
    by (simp add: formatBR_def str_def)
qed

lemma formatBR_80000: "formatBR (Fin 80000) = str ''80000,00''"
proof -
  have "decimalDigits (nat 8000000) = [56, 48, 48, 48, 48, 48, 48]"
    by (simp add: decimalDigits_small decimalDigits_step)
  from toFixed2_Fin [of 80000 8000000, OF _ _ _ _ this] show ?thesis
    by (simp add: formatBR_def str_def)
qed

lemma rd_20': "roundDouble (90071992547409925 / 4503599627370496) = Fin 20"
  using rd_20 by simp

lemma desconto_20: "desconto (Fin 100000) (Fin 80000) = Fin 20"
  by (simp add: desconto_def Let_def rd_20000 rd_fifth rd_20')

lemma vals_generico:
  "vAvalDe (textoValores pValores_generico) = Some (Fin 100000) \<and>
   genericoDe (textoValores pValores_generico) = str ''80.000,00'' \<and>
   vMinGeralDe (textoValores pValores_generico) = Some (Fin 80000)"
  using match_generico
  by (simp add: vAvalDe_def vMin1De_def vMin2De_def genericoDe_def vMinGeralDe_def grupo_eval
      parse_100000 parse_80000 parseBRL_empty minimoGeral_def candidatos_def mathMin_def min2_def)

lemma bloco_generico:
  "blocoValores (Some pValores_generico) =
     \<lparr>valorAvaliacao = str ''100.000,00'', valorMinimo1 = [], valorMinimo2 = [],
      valorMinimoGenerico = str ''80.000,00'', valorMinimoGeral = str ''80000,00'',
      descontoPercentual = str ''20,00%''\<rparr>"
  using match_generico vals_generico
  by (simp add: blocoValores_def Let_def grupo_eval calcDesconto_def desconto_20 formatBR_20
      formatBR_80000) (simp add: str_def)

lemma vals_zero:
  "vAvalDe (textoValores pValores_aval_zero) = Some (Fin 0) \<and>
   vMinGeralDe (textoValores pValores_aval_zero) = Some (Fin 80000)"
  using match_zero
  by (simp add: vAvalDe_def vMin1De_def vMin2De_def genericoDe_def vMinGeralDe_def grupo_eval
      parse_zero parse_80000 parseBRL_empty minimoGeral_def candidatos_def mathMin_def min2_def)

lemma vals_dois:
  "vMin1De (textoValores pValores_dois_leiloes) = Some (Fin 90000) \<and>
   vMin2De (textoValores pValores_dois_leiloes) = Some (Fin 60000)"
  using match_dois
  by (simp add: vMin1De_def vMin2De_def grupo_eval parse_90000 parse_60000)

lemma decimalDigits_digits: "decimalDigits n \<noteq> [] \<and> (\<forall>c \<in> set (decimalDigits n). isDigit c)"
proof (induction n rule: decimalDigits.induct)
  case (1 n)
  show ?case
  proof (cases "n < 10")
    case True
    then show ?thesis by (simp add: decimalDigits_small isDigit_def)
  next
    case False
    with 1 have "\<forall>c \<in> set (decimalDigits (n div 10)). isDigit c" by simp
    moreover have "isDigit (48 + n mod 10)" by (simp add: isDigit_def)
    ultimately show ?thesis using False by (simp add: decimalDigits_step)
  qed
qed

lemma toFixed2_shape:
  assumes "0 \<le> q" "q < 10 ^ 21"
  shows "\<exists>ip d1 d2. toFixed2 (Fin q) = ip @ [46, d1, d2] \<and> ip \<noteq> [] \<and>
           (\<forall>c \<in> set ip. isDigit c) \<and> isDigit d1 \<and> isDigit d2"
proof -
  define ds where "ds = decimalDigits (nat \<lfloor>q * 100 + 1 / 2\<rfloor>)"
  define ds' where "ds' = replicate (3 - length ds) 48 @ ds"
  have dig: "\<forall>c \<in> set ds'. isDigit c"
    using decimalDigits_digits [of "nat \<lfloor>q * 100 + 1 / 2\<rfloor>"]
    by (auto simp: ds'_def ds_def isDigit_def)
  have len: "3 \<le> length ds'" by (simp add: ds'_def)
  define ip where "ip = take (length ds' - 2) ds'"
  define fp where "fp = drop (length ds' - 2) ds'"
  from len have "length fp = 2" by (simp add: fp_def)
  then obtain d1 d2 where fp: "fp = [d1, d2]"
    by (cases fp; cases "tl fp") auto
  have "set fp \<subseteq> set ds'" unfolding fp_def by (rule set_drop_subset)
  with dig fp have d: "isDigit d1 \<and> isDigit d2" by auto
  have "set ip \<subseteq> set ds'" unfolding ip_def by (rule set_take_subset)
  with dig have i: "\<forall>c \<in> set ip. isDigit c" by auto
  from len have ne: "ip \<noteq> []" by (auto simp: ip_def)
  from assms have "toFixed2 (Fin q) = ip @ [46] @ fp"
    by (simp add: toFixed2_def Let_def ip_def fp_def ds'_def ds_def)
  with fp d i ne show ?thesis by auto
qed

lemma replaceFirstUnit_append:
  "a \<notin> set xs \<Longrightarrow> replaceFirstUnit a b (xs @ a # ys) = xs @ b # ys"
  by (induction xs) auto

lemma formatBR_shape:
  assumes "0 \<le> q" "q < 10 ^ 21"
  shows "\<exists>ip d1 d2. formatBR (Fin q) = ip @ [44, d1, d2] \<and> ip \<noteq> [] \<and>
           (\<forall>c \<in> set ip. isDigit c) \<and> isDigit d1 \<and> isDigit d2"
proof -
  from toFixed2_shape [OF assms] obtain ip d1 d2
    where t: "toFixed2 (Fin q) = ip @ [46, d1, d2]" and ne: "ip \<noteq> []"
      and i: "\<forall>c \<in> set ip. isDigit c" and d: "isDigit d1 \<and> isDigit d2"
    by blast
  from i have "46 \<notin> set ip" by (auto simp: isDigit_def)
  then have "replaceFirstUnit 46 44 (ip @ 46 # [d1, d2]) = ip @ 44 # [d1, d2]"
    by (rule replaceFirstUnit_append)
  with t have "formatBR (Fin q) = ip @ [44, d1, d2]" by (simp add: formatBR_def)
  with ne i d show ?thesis by blast
qed

lemma desconto_nonneg: "\<not> num_less (desconto a m) (Fin 0)"
  by (simp add: desconto_def Let_def)

text \<open>
  Claim C4, as stated, fails in its second half: a malformed input does not always yield
  no value. With two decimal commas, or with letters after the digits, \<^verbatim>\<open>parseBRL\<close>
  returns the number that \<^verbatim>\<open>parseFloat\<close> reads at the start of the cleaned text:
  \<^verbatim>\<open>1,2,3\<close> gives 1.2 and \<^verbatim>\<open>12abc\<close> gives 12.
\<close>

theorem parseBRL_counterexample:
  "parseBRL (Some (str ''1,2,3'')) = Some (Fin (5404319552844595 / 4503599627370496)) \<and>
   parseBRL (Some (str ''12abc'')) = Some (Fin 12)"
proof -
  have "roundDouble (12 / 10) = Fin (5404319552844595 / 4503599627370496)"
    by (rule rd_6_5)
  with parse_1_2_3 parse_12abc rd_12 show ?thesis
    by (simp only:)
qed

text \<open>
  Claim C4, amended. \<^verbatim>\<open>parseBRL\<close> maps \<^verbatim>\<open>1.234,56\<close> to the Number 1234.56, that is, to the
  binary64 value nearest to 123456/100. It is total and never returns NaN: it returns no
  value exactly when the cleaned text (everything but digits, comma, full stop and hyphen
  deleted, then the full stops deleted and the first comma turned into a full stop) does
  not start, after an optional hyphen, with a digit or with a full stop and a digit; in
  particular for an absent value, the empty string and every text without a digit.
\<close>

theorem parseBRL_value:
  "parseBRL (Some (str ''1.234,56'')) = Some (roundDouble (123456 / 100)) \<and>
   roundDouble (123456 / 100) = Fin (2714826150374277 / 2199023255552) \<and>
   parseBRL None = None \<and> parseBRL (Some []) = None \<and> parseBRL s \<noteq> Some NaN \<and>
   ((\<forall>c \<in> set t. \<not> isDigit c) \<longrightarrow> parseBRL (Some t) = None) \<and>
   (parseBRL (Some t) = None \<longleftrightarrow> \<not> startsNumeric (cleanBRL t))"
proof -
  have "parseBRL None = parseBRL (Some [])" by (simp add: parseBRL_def)
  then have "parseBRL None = None \<and> parseBRL (Some []) = None" by (simp add: parseBRL_empty)
  then show ?thesis
    using parse_1234_56 rd_1234_56 parseBRL_not_NaN [of s] parseBRL_no_digit [of t]
      parseBRL_None_iff [of t]
    by blast
qed

theorem parseBRL_value_witness:
  "parseBRL (Some (str ''abc'')) = None \<and>
   parseBRL (Some (str ''1.234,56'')) = Some (Fin (2714826150374277 / 2199023255552))"
proof -
  note t = parseBRL_value [where s = None and t = "str ''abc''"]
  have "\<forall>c \<in> set (str ''abc''). \<not> isDigit c" by (simp add: str_def isDigit_def)
  with t have "parseBRL (Some (str ''abc'')) = None" by blast
  moreover from t have "parseBRL (Some (str ''1.234,56'')) = Some (Fin (2714826150374277 / 2199023255552))"
    by simp
  ultimately show ?thesis by blast
qed

text \<open>
  Claim C2. In the values block: when the first-auction or the second-auction expression
  matched, the generic minimum is not used (its field stays empty and it is no candidate);
  it is used exactly when neither matched. When both numbered minimums are there and
  parse, the overall minimum is the smaller of the two, whatever generic value the text
  also shows. In general the overall minimum is one of the values found and none of them
  is smaller; there is none exactly when no value was found; and the field shows it with
  two decimals and a comma.
\<close>

theorem blocoValores_minimo:
  "((matchValor reMin1 (textoValores innerText) \<noteq> None \<or>
     matchValor reMin2 (textoValores innerText) \<noteq> None) \<longrightarrow>
      valorMinimoGenerico (blocoValores (Some innerText)) = [] \<and>
      vMinGeralDe (textoValores innerText) =
        minimoGeral [vMin1De (textoValores innerText), vMin2De (textoValores innerText)]) \<and>
   (matchValor reMin1 (textoValores innerText) = None \<and>
    matchValor reMin2 (textoValores innerText) = None \<longrightarrow>
      valorMinimoGenerico (blocoValores (Some innerText)) =
        grupo (matchValor reMinGeneric (textoValores innerText))) \<and>
   (vMin1De (textoValores innerText) = Some v1 \<and> vMin2De (textoValores innerText) = Some v2 \<longrightarrow>
      vMinGeralDe (textoValores innerText) = Some (if num_less v2 v1 then v2 else v1) \<and>
      valorMinimoGeral (blocoValores (Some innerText)) = formatBR (if num_less v2 v1 then v2 else v1)) \<and>
   (vMinGeralDe (textoValores innerText) = Some m \<longrightarrow>
      Some m \<in> {vMin1De (textoValores innerText), vMin2De (textoValores innerText),
                 parseBRL (Some (genericoDe (textoValores innerText)))} \<and>
      (\<forall>v. Some v \<in> {vMin1De (textoValores innerText), vMin2De (textoValores innerText),
                 parseBRL (Some (genericoDe (textoValores innerText)))} \<longrightarrow> \<not> num_less v m) \<and>
      valorMinimoGeral (blocoValores (Some innerText)) = formatBR m) \<and>
   (vMinGeralDe (textoValores innerText) = None \<longleftrightarrow>
      vMin1De (textoValores innerText) = None \<and> vMin2De (textoValores innerText) = None \<and>
      parseBRL (Some (genericoDe (textoValores innerText))) = None)"
proof -
  let ?t = "textoValores innerText"
  have f: "valorMinimoGeral (blocoValores (Some innerText)) =
      (case vMinGeralDe ?t of None \<Rightarrow> [] | Some v \<Rightarrow> formatBR v)"
    and g: "valorMinimoGenerico (blocoValores (Some innerText)) = genericoDe ?t"
    by (simp_all add: blocoValores_def Let_def)
  have a: "valorMinimoGenerico (blocoValores (Some innerText)) = [] \<and>
      vMinGeralDe ?t = minimoGeral [vMin1De ?t, vMin2De ?t]"
    if "matchValor reMin1 ?t \<noteq> None \<or> matchValor reMin2 ?t \<noteq> None"
    using that generico_ignored [of ?t] by (simp add: g)
  have b: "valorMinimoGenerico (blocoValores (Some innerText)) = grupo (matchValor reMinGeneric ?t)"
    if "matchValor reMin1 ?t = None \<and> matchValor reMin2 ?t = None"
    using that by (simp add: g genericoDe_def)
  have c: "vMinGeralDe ?t = Some (if num_less v2 v1 then v2 else v1) \<and>
      valorMinimoGeral (blocoValores (Some innerText)) = formatBR (if num_less v2 v1 then v2 else v1)"
    if "vMin1De ?t = Some v1 \<and> vMin2De ?t = Some v2"
    using that minimo_two [of ?t v1 v2] by (simp add: f)
  have nn: "Some NaN \<notin> set [vMin1De ?t, vMin2De ?t, parseBRL (Some (genericoDe ?t))]"
  proof -
    have "Some NaN \<noteq> parseBRL x" for x
      using parseBRL_not_NaN [of x] by simp
    then show ?thesis by (auto simp: vMin1De_def vMin2De_def)
  qed
  have d: "Some m \<in> {vMin1De ?t, vMin2De ?t, parseBRL (Some (genericoDe ?t))} \<and>
      (\<forall>v. Some v \<in> {vMin1De ?t, vMin2De ?t, parseBRL (Some (genericoDe ?t))} \<longrightarrow> \<not> num_less v m) \<and>
      valorMinimoGeral (blocoValores (Some innerText)) = formatBR m"
    if "vMinGeralDe ?t = Some m"
  proof -
    from that have "minimoGeral [vMin1De ?t, vMin2De ?t, parseBRL (Some (genericoDe ?t))] = Some m"
      by (simp add: vMinGeralDe_def)
    from minimoGeral_least [OF nn this] that show ?thesis
      by (simp add: f)
  qed
  have e: "vMinGeralDe ?t = None \<longleftrightarrow>
      vMin1De ?t = None \<and> vMin2De ?t = None \<and> parseBRL (Some (genericoDe ?t)) = None"
    by (simp add: vMinGeralDe_def minimoGeral_None)
  from a b c d e show ?thesis by blast
qed

theorem blocoValores_minimo_witness:
  "valorMinimoGenerico (blocoValores (Some pValores_dois_leiloes)) = [] \<and>
   vMinGeralDe (textoValores pValores_dois_leiloes) = Some (Fin 60000) \<and>
   valorMinimoGeral (blocoValores (Some pValores_dois_leiloes)) = str ''60000,00'' \<and>
   matchValor reMinGeneric (textoValores pValores_dois_leiloes) = Some (str ''50.000,00'')"
proof -
  note t = blocoValores_minimo [of pValores_dois_leiloes "Fin 90000" "Fin 60000" "Fin 60000"]
  from match_dois have "matchValor reMin1 (textoValores pValores_dois_leiloes) \<noteq> None"
    by simp
  with t have a: "valorMinimoGenerico (blocoValores (Some pValores_dois_leiloes)) = []"
    by blast
  from t vals_dois have "vMinGeralDe (textoValores pValores_dois_leiloes)
        = Some (if num_less (Fin 60000) (Fin 90000) then Fin 60000 else Fin 90000) \<and>
      valorMinimoGeral (blocoValores (Some pValores_dois_leiloes))
        = formatBR (if num_less (Fin 60000) (Fin 90000) then Fin 60000 else Fin 90000)"
    by blast
  then have "vMinGeralDe (textoValores pValores_dois_leiloes) = Some (Fin 60000) \<and>
      valorMinimoGeral (blocoValores (Some pValores_dois_leiloes)) = str ''60000,00''"
    by (simp add: formatBR_60000)
  with a match_dois show ?thesis by blast
qed

lemma matchValorAt_chars: "matchValorAt segs s = Some g \<Longrightarrow> \<forall>c \<in> set g. isValorChar c"
  by (auto simp: matchValorAt_def Let_def split: option.splits if_splits dest: set_takeWhileD)

lemma matchValor_chars: "matchValor segs s = Some g \<Longrightarrow> \<forall>c \<in> set g. isValorChar c"
  by (induction s) (auto split: option.splits dest: matchValorAt_chars)

lemma grupo_chars: "\<forall>c \<in> set (grupo (matchValor segs s)). isValorChar c"
proof (cases "matchValor segs s")
  case None
  then show ?thesis by (simp add: grupo_def)
next
  case (Some g)
  then have "\<forall>c \<in> set g. isValorChar c" by (rule matchValor_chars)
  with set_trim [of g] Some show ?thesis by (auto simp: grupo_def)
qed

lemma genericoDe_chars: "\<forall>c \<in> set (genericoDe t). isValorChar c"
  using grupo_chars [of reMinGeneric t] by (simp add: genericoDe_def)

lemma cleanBRL_valor:
  assumes "\<forall>c \<in> set g. isValorChar c"
  shows "\<forall>c \<in> set (cleanBRL g). isDigit c \<or> c = 44 \<or> c = 46"
proof -
  have r: "set (replaceFirstUnit a b t) \<subseteq> insert b (set t)" for a b t
    by (induction t) auto
  from assms r [of 44 46] show ?thesis
    by (fastforce simp: cleanBRL_def isValorChar_def)
qed

lemma parseFloat_nonneg:
  assumes "\<forall>c \<in> set u. isDigit c \<or> c = 44 \<or> c = 46"
  shows "parseFloat u = NaN \<or> (\<exists>mv. 0 \<le> mv \<and> parseFloat u = roundDouble mv)"
proof -
  have ws: "dropWhile isWhiteSpace u = u"
  proof (cases u)
    case Nil
    then show ?thesis by simp
  next
    case (Cons c r)
    with assms have "isDigit c \<or> c = 44 \<or> c = 46" by simp
    then have "\<not> isWhiteSpace c" by (auto simp: isDigit_def isWhiteSpace_def)
    with Cons show ?thesis by simp
  qed
  have sg: "\<not> (u \<noteq> [] \<and> hd u = 45)" "\<not> (u \<noteq> [] \<and> (hd u = 45 \<or> hd u = 43))"
    using assms by (cases u; auto simp: isDigit_def)+
  have inf: "\<not> startsWith u (str ''Infinity'')"
  proof (cases u)
    case Nil
    then show ?thesis by (simp add: startsWith_def str_def)
  next
    case (Cons c r)
    with assms have "c \<noteq> 73" by (auto simp: isDigit_def)
    with Cons show ?thesis by (auto simp: startsWith_def str_def)
  qed
  define ip where "ip = takeWhile isDigit u"
  define r where "r = dropWhile isDigit u"
  define fp where "fp = (if r \<noteq> [] \<and> hd r = 46 then takeWhile isDigit (tl r) else [])"
  define r' where "r' = (if r \<noteq> [] \<and> hd r = 46 then dropWhile isDigit (tl r) else r)"
  define mv :: rat where "mv = of_nat (digitsVal (ip @ fp)) * 10 powi (exponentPart r' - int (length fp))"
  have "parseFloat u = (if ip = [] \<and> fp = [] then NaN else roundDouble mv)"
    unfolding ip_def r_def fp_def r'_def mv_def
    by (simp only: parseFloat_def Let_def ws sg inf if_False simp_thms minus_minus)
  moreover have "0 \<le> mv" by (simp add: mv_def)
  ultimately show ?thesis by auto
qed

lemma roundDouble_nonneg_shape:
  assumes "0 \<le> mv"
  shows "roundDouble mv = PosInf \<or> (\<exists>x. roundDouble mv = Fin x \<and> 0 \<le> x \<and> roundDouble x = Fin x)"
proof (cases "mv = 0")
  case True
  then show ?thesis by (simp add: roundDouble_zero)
next
  case False
  with assms have p: "0 < mv" by simp
  from roundDouble_sign_pos [OF p] show ?thesis
  proof
    assume "roundDouble mv = PosInf"
    then show ?thesis by simp
  next
    assume "\<exists>v. roundDouble mv = Fin v \<and> 0 \<le> v"
    then obtain v where v: "roundDouble mv = Fin v" "0 \<le> v" by blast
    with roundDouble_idem_pos [OF p v(1)] show ?thesis by simp
  qed
qed

lemma parseBRL_valor:
  assumes "\<forall>c \<in> set g. isValorChar c" "parseBRL (Some g) = Some v"
  shows "v = PosInf \<or> (\<exists>x. v = Fin x \<and> 0 \<le> x \<and> roundDouble x = Fin x)"
proof -
  from assms(2) have v: "v = parseFloat (cleanBRL g)" and n: "parseFloat (cleanBRL g) \<noteq> NaN"
    by (auto simp: parseBRL_def Let_def split: if_splits)
  from parseFloat_nonneg [OF cleanBRL_valor [OF assms(1)]] n
  obtain mv where "0 \<le> mv" "parseFloat (cleanBRL g) = roundDouble mv" by blast
  with roundDouble_nonneg_shape [of mv] v show ?thesis by simp
qed

lemma vAvalDe_shape:
  "vAvalDe t = Some a \<Longrightarrow> a = PosInf \<or> (\<exists>x. a = Fin x \<and> 0 \<le> x \<and> roundDouble x = Fin x)"
  unfolding vAvalDe_def using grupo_chars [of reAval t] by (rule parseBRL_valor)

lemma vMinGeralDe_shape:
  assumes "vMinGeralDe t = Some m"
  shows "m = PosInf \<or> (\<exists>x. m = Fin x \<and> 0 \<le> x \<and> roundDouble x = Fin x)"
proof -
  have nn: "Some NaN \<notin> set [vMin1De t, vMin2De t, parseBRL (Some (genericoDe t))]"
  proof -
    have "Some NaN \<noteq> parseBRL x" for x
      using parseBRL_not_NaN [of x] by simp
    then show ?thesis by (auto simp: vMin1De_def vMin2De_def)
  qed
  from assms have "minimoGeral [vMin1De t, vMin2De t, parseBRL (Some (genericoDe t))] = Some m"
    by (simp add: vMinGeralDe_def)
  from minimoGeral_least [OF nn this]
  have "Some m \<in> set [vMin1De t, vMin2De t, parseBRL (Some (genericoDe t))]" by simp
  then consider "vMin1De t = Some m" | "vMin2De t = Some m" | "parseBRL (Some (genericoDe t)) = Some m"
    by auto
  then show ?thesis
  proof cases
    case 1
    then show ?thesis
      unfolding vMin1De_def using grupo_chars [of reMin1 t] by (intro parseBRL_valor)
  next
    case 2
    then show ?thesis
      unfolding vMin2De_def using grupo_chars [of reMin2 t] by (intro parseBRL_valor)
  next
    case 3
    then show ?thesis
      using genericoDe_chars [of t] by (intro parseBRL_valor)
  qed
qed

lemma collapseRuns1_zeros: "collapseRuns1 (replicate n 48 @ r) = replicate n 48 @ collapseRuns1 r"
  by (induction n) (simp_all add: isWhiteSpace_def)

lemma texto_overflow:
  "textoValores pValores_overflow =
     str ''Valor de avalia'' @ [231, 227] @ str ''o: R$ 1'' @ replicate 309 48 @
     str '' Valor m'' @ [237] @ str ''nimo de venda: R$ 80.000,00''"
  by (simp add: textoValores_def pValores_overflow_def str_def trim_eval collapseRuns1_zeros)

lemma startsWithCI_hd: "p \<noteq> [] \<Longrightarrow> canonUnit c \<noteq> canonUnit (hd p) \<Longrightarrow> \<not> startsWithCI (c # r) p"
  by (cases p) (auto simp: startsWithCI_def)

lemma matchValorAt_zero:
  "segs \<noteq> [] \<Longrightarrow> hd segs \<noteq> [] \<Longrightarrow> canonUnit 48 \<noteq> canonUnit (hd (hd segs)) \<Longrightarrow>
   matchValorAt segs (48 # r) = None"
  by (cases segs) (simp_all add: matchValorAt_def startsWithCI_hd)

lemma matchValor_zeros:
  "segs \<noteq> [] \<Longrightarrow> hd segs \<noteq> [] \<Longrightarrow> canonUnit 48 \<noteq> canonUnit (hd (hd segs)) \<Longrightarrow>
   matchValor segs (replicate n 48 @ r) = matchValor segs r"
  by (induction n) (simp_all add: matchValorAt_zero)

lemma takeWhile_zeros: "takeWhile isValorChar (replicate n 48 @ r) = replicate n 48 @ takeWhile isValorChar r"
  by (induction n) (simp_all add: isValorChar_def isDigit_def)

lemma match_overflow:
  "matchValor reAval (textoValores pValores_overflow) = Some (49 # replicate 309 48) \<and>
   matchValor reMin1 (textoValores pValores_overflow) = None \<and>
   matchValor reMin2 (textoValores pValores_overflow) = None \<and>
   matchValor reMinGeneric (textoValores pValores_overflow) = Some (str ''80.000,00'')"
  unfolding texto_overflow by (simp add: match_eval matchValor_zeros takeWhile_zeros)

lemma foldl_zeros: "foldl (\<lambda>a c. 10 * a + (c - 48)) (a::nat) (replicate n 48) = a * 10 ^ n"
  by (induction n arbitrary: a) simp_all

lemma replaceFirstUnit_id: "a \<notin> set s \<Longrightarrow> replaceFirstUnit a b s = s"
  by (induction s) auto

lemma parse_overflow: "parseBRL (Some (49 # replicate 309 48)) = Some PosInf"
proof -
  have c: "cleanBRL (49 # replicate 309 48) = 49 # replicate 309 48"
    by (simp add: cleanBRL_def isDigit_def replaceFirstUnit_id)
  have d: "digitsVal (49 # replicate 309 48) = 10 ^ 309"
    by (simp add: digitsVal_def foldl_zeros)
  have t: "takeWhile isDigit (replicate 309 48) = replicate 309 48"
    by (simp add: isDigit_def takeWhile_eq_all_conv)
  have dr: "dropWhile isDigit (replicate 309 48) = []"
    by (simp add: isDigit_def)
  have "parseFloat (49 # replicate 309 48) = roundDouble (of_nat (10 ^ 309))"
    by (simp add: parseFloat_def Let_def isWhiteSpace_def startsWith_def str_def isDigit_def
        takeWhile_eq_all_conv exponentPart_def d)
  moreover have "roundDouble (of_nat (10 ^ 309)) = PosInf"
    by (rule roundDouble_overflow) simp
  ultimately show ?thesis
    by (simp add: parseBRL_def Let_def c)
qed

lemma vals_overflow:
  "vAvalDe (textoValores pValores_overflow) = Some PosInf \<and>
   vMinGeralDe (textoValores pValores_overflow) = Some (Fin 80000)"
proof -
  have "grupo (Some (49 # replicate 309 48)) = 49 # replicate 309 48"
    by (simp add: grupo_def trim_eval)
  with match_overflow show ?thesis
    by (simp add: vAvalDe_def vMin1De_def vMin2De_def genericoDe_def vMinGeralDe_def grupo_eval
      parse_overflow parse_80000 parseBRL_empty minimoGeral_def candidatos_def mathMin_def min2_def)
qed

lemma formatBR_NaN: "formatBR NaN = str ''NaN''"
  by (simp add: formatBR_def toFixed2_def str_def)

text \<open>
  Claim C1, as stated, fails for an appraisal whose text is too long for a Number. An
  appraisal of 1 followed by 309 zeros parses to \<^verbatim>\<open>Infinity\<close>, which is not \<^verbatim>\<open>null\<close> and
  is above zero, so the discount is computed: \<^verbatim>\<open>(Infinity - 80000) / Infinity\<close> is NaN,
  NaN is not below 0, and \<^verbatim>\<open>toFixed(2)\<close> prints it as \<^verbatim>\<open>NaN\<close>. The field is \<^verbatim>\<open>NaN%\<close>,
  not a number with two decimals.
\<close>

theorem blocoValores_desconto_counterexample:
  "vAvalDe (textoValores pValores_overflow) = Some PosInf \<and>
   vMinGeralDe (textoValores pValores_overflow) = Some (Fin 80000) \<and>
   num_less (Fin 0) PosInf \<and>
   descontoPercentual (blocoValores (Some pValores_overflow)) = str ''NaN%''"
  using vals_overflow
  by (simp add: blocoValores_def Let_def calcDesconto_def desconto_PosInf formatBR_NaN)
    (simp add: str_def)

text \<open>
  Claim C1, amended. In the values block, when the appraisal and an overall minimum parse
  (to \<open>a\<close> and \<open>m\<close>) and the appraisal is above zero, the discount field is the Number
  \<^verbatim>\<open>(a - m) / a * 100\<close>, replaced by 0 when it is below 0, printed by \<^verbatim>\<open>toFixed(2)\<close> with
  the point turned into a comma and followed by the percent sign; the Number is never
  below zero. When the appraisal is finite, the Number is finite and lies between 0 and
  100, and the field is a non-empty string of digits, a comma, two digits and the percent
  sign. When the appraisal or the overall minimum is missing, or the appraisal is not
  above zero, the field is empty and nothing is divided. The appraisal \<^verbatim>\<open>100.000,00\<close>
  with the minimum \<^verbatim>\<open>80.000,00\<close> gives \<^verbatim>\<open>20,00%\<close>, and the appraisal \<^verbatim>\<open>0,00\<close> gives the
  empty field.
\<close>

theorem blocoValores_desconto:
  "(vAvalDe (textoValores innerText) = Some a \<and> vMinGeralDe (textoValores innerText) = Some m \<and>
    num_less (Fin 0) a \<longrightarrow>
      descontoPercentual (blocoValores (Some innerText)) = formatBR (desconto a m) @ [37] \<and>
      desconto a m =
        (if num_less (num_mul (num_div (num_sub a m) a) (Fin 100)) (Fin 0) then Fin 0
         else num_mul (num_div (num_sub a m) a) (Fin 100)) \<and>
      \<not> num_less (desconto a m) (Fin 0) \<and>
      (\<forall>x. a = Fin x \<longrightarrow>
         (\<exists>q. desconto a m = Fin q \<and> 0 \<le> q \<and> q \<le> 100) \<and>
         (\<exists>ip d1 d2. descontoPercentual (blocoValores (Some innerText)) = ip @ [44, d1, d2, 37] \<and>
            ip \<noteq> [] \<and> (\<forall>c \<in> set ip. isDigit c) \<and> isDigit d1 \<and> isDigit d2))) \<and>
   (vAvalDe (textoValores innerText) = None \<or> vMinGeralDe (textoValores innerText) = None \<or>
    (\<exists>z. vAvalDe (textoValores innerText) = Some z \<and> \<not> num_less (Fin 0) z) \<longrightarrow>
      descontoPercentual (blocoValores (Some innerText)) = []) \<and>
   descontoPercentual (blocoValores None) = [] \<and>
   vAvalDe (textoValores pValores_generico) = Some (Fin 100000) \<and>
   vMinGeralDe (textoValores pValores_generico) = Some (Fin 80000) \<and>
   descontoPercentual (blocoValores (Some pValores_generico)) = str ''20,00%'' \<and>
   vAvalDe (textoValores pValores_aval_zero) = Some (Fin 0) \<and>
   descontoPercentual (blocoValores (Some pValores_aval_zero)) = []"
proof -
  let ?t = "textoValores innerText"
  let ?f = "descontoPercentual (blocoValores (Some innerText))"
  have f: "descontoPercentual (blocoValores (Some x)) =
      calcDesconto (vAvalDe (textoValores x)) (vMinGeralDe (textoValores x))" for x
    by (simp add: blocoValores_def Let_def)
  have p1: "?f = formatBR (desconto a m) @ [37] \<and>
      desconto a m =
        (if num_less (num_mul (num_div (num_sub a m) a) (Fin 100)) (Fin 0) then Fin 0
         else num_mul (num_div (num_sub a m) a) (Fin 100)) \<and>
      \<not> num_less (desconto a m) (Fin 0) \<and>
      (\<forall>x. a = Fin x \<longrightarrow>
         (\<exists>q. desconto a m = Fin q \<and> 0 \<le> q \<and> q \<le> 100) \<and>
         (\<exists>ip d1 d2. ?f = ip @ [44, d1, d2, 37] \<and>
            ip \<noteq> [] \<and> (\<forall>c \<in> set ip. isDigit c) \<and> isDigit d1 \<and> isDigit d2))"
    if h: "vAvalDe ?t = Some a \<and> vMinGeralDe ?t = Some m \<and> num_less (Fin 0) a"
  proof -
    from h have d: "?f = formatBR (desconto a m) @ [37]"
      by (simp add: f calcDesconto_def)
    have s: "(\<exists>q. desconto a m = Fin q \<and> 0 \<le> q \<and> q \<le> 100) \<and>
         (\<exists>ip d1 d2. ?f = ip @ [44, d1, d2, 37] \<and>
            ip \<noteq> [] \<and> (\<forall>c \<in> set ip. isDigit c) \<and> isDigit d1 \<and> isDigit d2)"
      if ax: "a = Fin x" for x
    proof -
      from h ax have xpos: "0 < x" by simp
      from h have "vAvalDe ?t = Some a" by simp
      then have "a = PosInf \<or> (\<exists>x. a = Fin x \<and> 0 \<le> x \<and> roundDouble x = Fin x)"
        by (rule vAvalDe_shape)
      with ax have rx: "roundDouble x = Fin x" by simp
      from h have "vMinGeralDe ?t = Some m" by simp
      then have "m = PosInf \<or> (\<exists>y. m = Fin y \<and> 0 \<le> y \<and> roundDouble y = Fin y)"
        by (rule vMinGeralDe_shape)
      then have "m = PosInf \<or> (\<exists>y. m = Fin y \<and> 0 \<le> y)" by blast
      from desconto_range [OF xpos rx this] ax
      obtain q where q: "desconto a m = Fin q" "0 \<le> q" "q \<le> 100" by blast
      then have "q < 10 ^ 21" by simp
      with q(2) formatBR_shape [of q] obtain ip d1 d2 where
        "formatBR (Fin q) = ip @ [44, d1, d2]" "ip \<noteq> []" "\<forall>c \<in> set ip. isDigit c"
        "isDigit d1 \<and> isDigit d2"
        by blast
      with d q show ?thesis by simp
    qed
    from d s desconto_nonneg [of a m] show ?thesis
      by (simp add: desconto_def Let_def)
  qed
  have p2: "?f = []"
    if "vAvalDe ?t = None \<or> vMinGeralDe ?t = None \<or> (\<exists>z. vAvalDe ?t = Some z \<and> \<not> num_less (Fin 0) z)"
    using that by (auto simp: f calcDesconto_def split: option.splits)
  have p3: "descontoPercentual (blocoValores None) = []"
    by (simp add: blocoValores_def)
  have p4: "descontoPercentual (blocoValores (Some pValores_generico)) = str ''20,00%''"
    by (simp add: bloco_generico)
  have p5: "descontoPercentual (blocoValores (Some pValores_aval_zero)) = []"
    using vals_zero by (simp add: f calcDesconto_def)
  from p1 p2 p3 p4 p5 vals_generico vals_zero show ?thesis
    by blast
qed

theorem blocoValores_desconto_witness:
  "descontoPercentual (blocoValores (Some pValores_generico)) = formatBR (Fin 20) @ [37] \<and>
   formatBR (Fin 20) @ [37] = str ''20,00%'' \<and>
   desconto (Fin 100000) (Fin 80000) = Fin 20 \<and>
   (\<exists>q. desconto (Fin 100000) (Fin 80000) = Fin q \<and> 0 \<le> q \<and> q \<le> 100) \<and>
   descontoPercentual (blocoValores (Some pValores_aval_zero)) = []"
proof -
  note t = blocoValores_desconto [of pValores_generico "Fin 100000" "Fin 80000"]
  note u = blocoValores_desconto [of pValores_aval_zero "Fin 0" "Fin 0"]
  have l: "num_less (Fin 0) (Fin 100000)" by simp
  with t vals_generico
  have "descontoPercentual (blocoValores (Some pValores_generico))
      = formatBR (desconto (Fin 100000) (Fin 80000)) @ [37]"
    by blast
  then have a: "descontoPercentual (blocoValores (Some pValores_generico)) = formatBR (Fin 20) @ [37]"
    by (simp only: desconto_20)
  from l t vals_generico
  have r: "\<exists>q. desconto (Fin 100000) (Fin 80000) = Fin q \<and> 0 \<le> q \<and> q \<le> 100"
    by blast
  have b: "formatBR (Fin 20) @ [37] = str ''20,00%''"
    by (simp add: formatBR_20 str_def)
  have "\<exists>z. vAvalDe (textoValores pValores_aval_zero) = Some z \<and> \<not> num_less (Fin 0) z"
    using vals_zero by simp
  with u have c: "descontoPercentual (blocoValores (Some pValores_aval_zero)) = []"
    by blast
  from a b c r desconto_20 show ?thesis by blast
qed

section \<open>Properties of the detail extractor\<close>

text \<open>
  Claim C10. Every record that the extractor returns has the same string in its two
  discount fields: both are the discount of the values block.
\<close>

theorem extrair_desconto_pct:
  "extrairDetalhesImovel mt pg = Some r \<longrightarrow>
     imoveis_desconto_percentual r = imoveis_desconto_pct r \<and>
     (\<exists>p. pg = Some p \<and>
        imoveis_desconto_pct r = descontoPercentual (blocoValores (dom_pValores p)))"
  by (cases pg) (auto simp: extrairDetalhesImovel_def dados_def Let_def)

theorem extrair_desconto_pct_witness:
  "imoveis_desconto_percentual (the (extrairDetalhesImovel None (Some pagina_exemplo))) = str ''20,00%'' \<and>
   imoveis_desconto_pct (the (extrairDetalhesImovel None (Some pagina_exemplo))) = str ''20,00%''"
proof -
  obtain r where r: "extrairDetalhesImovel None (Some pagina_exemplo) = Some r"
    by (simp add: extrairDetalhesImovel_def)
  with extrair_desconto_pct [of None "Some pagina_exemplo" r]
  have e: "imoveis_desconto_percentual r = imoveis_desconto_pct r"
    and "imoveis_desconto_pct r = descontoPercentual (blocoValores (dom_pValores pagina_exemplo))"
    by auto
  then have "imoveis_desconto_pct r = str ''20,00%''"
    by (simp add: pagina_exemplo_def bloco_generico)
  with e r show ?thesis by simp
qed

section \<open>Properties of the listing collector\<close>

lemma foldl_setAdd:
  "distinct s \<Longrightarrow> distinct (foldl setAdd s us) \<and> set (foldl setAdd s us) = set s \<union> set us"
  by (induction us arbitrary: s) (auto simp: setAdd_def)

lemma coletar_gen:
  "distinct s \<Longrightarrow>
   distinct (foldl (\<lambda>urlsSet items. foldl setAdd urlsSet (pageUrls items)) s pages) \<and>
   set (foldl (\<lambda>urlsSet items. foldl setAdd urlsSet (pageUrls items)) s pages)
     = set s \<union> set (concat (map pageUrls pages))"
proof (induction pages arbitrary: s)
  case Nil
  then show ?case by simp
next
  case (Cons p ps)
  from Cons.prems have d: "distinct (foldl setAdd s (pageUrls p))"
    and e: "set (foldl setAdd s (pageUrls p)) = set s \<union> set (pageUrls p)"
    by (simp_all add: foldl_setAdd)
  from Cons.IH [OF d] e show ?case by auto
qed

lemma inj_urlDet: "inj urlDet"
  by (rule injI) (simp add: urlDet_def)

lemma matchDetalheAt_digits:
  "matchDetalheAt s = Some ds \<Longrightarrow> ds \<noteq> [] \<and> (\<forall>c \<in> set ds. isDigit c)"
  by (auto simp: matchDetalheAt_def Let_def split: if_splits dest: set_takeWhileD)

lemma matchDetalhe_digits:
  "matchDetalhe s = Some ds \<Longrightarrow> ds \<noteq> [] \<and> (\<forall>c \<in> set ds. isDigit c)"
  by (induction s) (auto split: option.splits dest: matchDetalheAt_digits)

lemma set_map_filter_iff: "y \<in> set (List.map_filter f xs) \<longleftrightarrow> (\<exists>x \<in> set xs. f x = Some y)"
  by (induction xs) (auto split: option.splits)

lemma pageIds_digits: "i \<in> set (pageIds items) \<Longrightarrow> i \<noteq> [] \<and> (\<forall>c \<in> set i. isDigit c)"
proof -
  assume "i \<in> set (pageIds items)"
  then obtain it where "itemId it = Some i"
    by (auto simp: pageIds_def set_map_filter_iff)
  then obtain onclick where "matchDetalhe onclick = Some i"
    by (auto simp: itemId_def split: option.splits)
  then show ?thesis by (rule matchDetalhe_digits)
qed

lemma set_urls_ids: "set (concat (map pageUrls pages)) = urlDet ` set (concat (map pageIds pages))"
  by (auto simp: pageUrls_def)

lemma matchDetalheAt_text:
  "matchDetalheAt s = Some ds \<Longrightarrow> startsWith s (str ''detalhe_imovel('' @ ds @ [41])"
proof -
  assume a: "matchDetalheAt s = Some ds"
  define r where "r = drop (length (str ''detalhe_imovel('')) s"
  from a have p: "take (length (str ''detalhe_imovel('')) s = str ''detalhe_imovel(''"
    and d: "ds = takeWhile isDigit r" and t: "dropWhile isDigit r \<noteq> []"
    and h: "hd (dropWhile isDigit r) = 41"
    by (auto simp: matchDetalheAt_def Let_def startsWith_def r_def split: if_splits)
  from t h obtain rest where "dropWhile isDigit r = 41 # rest"
    by (cases "dropWhile isDigit r") auto
  with d have "r = ds @ 41 # rest"
    using takeWhile_dropWhile_id [of isDigit r] by simp
  moreover have "s = str ''detalhe_imovel('' @ r"
    using p append_take_drop_id [of "length (str ''detalhe_imovel('')" s] by (simp add: r_def)
  ultimately have "s = (str ''detalhe_imovel('' @ ds @ [41]) @ rest"
    by simp
  then show ?thesis
    unfolding startsWith_def by (metis append_eq_conv_conj)
qed

lemma matchDetalhe_text:
  "matchDetalhe s = Some ds \<Longrightarrow> includes_js s (str ''detalhe_imovel('' @ ds @ [41])"
  by (induction s) (auto split: option.splits dest: matchDetalheAt_text)

lemma pageIds_iff:
  "i \<in> set (pageIds items) \<longleftrightarrow>
     (\<exists>it \<in> set items. \<exists>onclick. querySelectorLink it = Some onclick \<and> matchDetalhe onclick = Some i)"
  by (auto simp: pageIds_def set_map_filter_iff itemId_def split: option.splits)

text \<open>
  Claim C3. For every sequence of listing pages the collector's result has no duplicate;
  its elements are exactly the detail-page URLs of the identifiers found on the pages, so
  its size is the number of distinct identifiers (however often each was matched); and
  each element is the fixed text
  \<^verbatim>\<open>https://venda-imoveis.caixa.gov.br/sistema/detalhe-imovel.asp?hdnimovel=\<close> followed by
  an identifier, a non-empty string of digits. The identifiers of a page are the digit
  strings that stand between \<^verbatim>\<open>detalhe_imovel(\<close> and \<^verbatim>\<open>)\<close> in the \<^verbatim>\<open>onclick\<close> text of the
  first matching anchor of its items.
\<close>

theorem coletarUrlsCidade_distinct:
  "distinct (coletarUrlsCidade pages) \<and>
   set (coletarUrlsCidade pages) =
     (\<lambda>i. str ''https://venda-imoveis.caixa.gov.br/sistema/detalhe-imovel.asp?hdnimovel='' @ i) `
       set (concat (map pageIds pages)) \<and>
   length (coletarUrlsCidade pages) = card (set (concat (map pageIds pages))) \<and>
   (\<forall>u \<in> set (coletarUrlsCidade pages).
      \<exists>i. u = str ''https://venda-imoveis.caixa.gov.br/sistema/detalhe-imovel.asp?hdnimovel='' @ i \<and>
          i \<noteq> [] \<and> (\<forall>c \<in> set i. isDigit c)) \<and>
   (\<forall>items. \<forall>i. i \<in> set (pageIds items) \<longleftrightarrow>
      (\<exists>it \<in> set items. \<exists>onclick. querySelectorLink it = Some onclick \<and>
         matchDetalhe onclick = Some i)) \<and>
   (\<forall>onclick i. matchDetalhe onclick = Some i \<longrightarrow>
      includes_js onclick (str ''detalhe_imovel('' @ i @ [41]))"
proof -
  have g: "distinct (coletarUrlsCidade pages) \<and>
      set (coletarUrlsCidade pages) = set [] \<union> set (concat (map pageUrls pages))"
    unfolding coletarUrlsCidade_def by (rule coletar_gen) simp
  then have d: "distinct (coletarUrlsCidade pages)"
    by (rule conjunct1)
  from g have "set (coletarUrlsCidade pages) = set (concat (map pageUrls pages))"
    by simp
  then have s: "set (coletarUrlsCidade pages) = urlDet ` set (concat (map pageIds pages))"
    by (simp only: set_urls_ids)
  from d have "length (coletarUrlsCidade pages) = card (set (coletarUrlsCidade pages))"
    by (simp add: distinct_card)
  also have "\<dots> = card (set (concat (map pageIds pages)))"
    unfolding s by (rule card_image) (rule inj_on_subset [OF inj_urlDet], simp)
  finally have l: "length (coletarUrlsCidade pages) = card (set (concat (map pageIds pages)))" .
  have "\<exists>i. u = urlDet i \<and> i \<noteq> [] \<and> (\<forall>c \<in> set i. isDigit c)"
    if "u \<in> set (coletarUrlsCidade pages)" for u
  proof -
    from that s obtain i where u: "u = urlDet i" and "i \<in> set (concat (map pageIds pages))"
      by auto
    then obtain p where "i \<in> set (pageIds p)" by auto
    then have "i \<noteq> [] \<and> (\<forall>c \<in> set i. isDigit c)" by (rule pageIds_digits)
    with u show ?thesis by blast
  qed
  then have e: "\<forall>u \<in> set (coletarUrlsCidade pages).
      \<exists>i. u = urlDet i \<and> i \<noteq> [] \<and> (\<forall>c \<in> set i. isDigit c)"
    by blast
  have u: "urlDet = (\<lambda>i. str ''https://venda-imoveis.caixa.gov.br/sistema/detalhe-imovel.asp?hdnimovel='' @ i)"
    by (rule ext) (simp only: urlDet_def)
  have i: "\<forall>items. \<forall>i. i \<in> set (pageIds items) \<longleftrightarrow>
      (\<exists>it \<in> set items. \<exists>onclick. querySelectorLink it = Some onclick \<and>
         matchDetalhe onclick = Some i)"
    using pageIds_iff by blast
  have m: "\<forall>onclick i. matchDetalhe onclick = Some i \<longrightarrow>
      includes_js onclick (str ''detalhe_imovel('' @ i @ [41])"
    using matchDetalhe_text by blast
  note s' = s [unfolded u]
  note e' = e [unfolded u]
  show ?thesis
    using d s' l e' i m by - (intro conjI; assumption)
qed

lemma coletar_overlap:
  "coletarUrlsCidade pages_overlap =
     [str ''https://venda-imoveis.caixa.gov.br/sistema/detalhe-imovel.asp?hdnimovel=10'',
      str ''https://venda-imoveis.caixa.gov.br/sistema/detalhe-imovel.asp?hdnimovel=20'',
      str ''https://venda-imoveis.caixa.gov.br/sistema/detalhe-imovel.asp?hdnimovel=30'']"
  by (simp add: coletarUrlsCidade_def pages_overlap_def pageUrls_def pageIds_def itemId_def
      querySelectorLink_def anchorOf_def matchDetalheAt_def startsWith_def str_def urlDet_def
      setAdd_def isDigit_def)

lemma pageIds_overlap:
  "concat (map pageIds pages_overlap) = [str ''10'', str ''20'', str ''20'', str ''30'']"
  by (simp add: pages_overlap_def pageIds_def itemId_def
      querySelectorLink_def anchorOf_def matchDetalheAt_def startsWith_def str_def isDigit_def)

theorem coletarUrlsCidade_distinct_witness:
  "distinct (coletarUrlsCidade pages_overlap) \<and>
   length (concat (map pageIds pages_overlap)) = 4 \<and>
   length (coletarUrlsCidade pages_overlap) = 3 \<and>
   card (set (concat (map pageIds pages_overlap))) = 3 \<and>
   coletarUrlsCidade pages_overlap =
     [str ''https://venda-imoveis.caixa.gov.br/sistema/detalhe-imovel.asp?hdnimovel=10'',
      str ''https://venda-imoveis.caixa.gov.br/sistema/detalhe-imovel.asp?hdnimovel=20'',
      str ''https://venda-imoveis.caixa.gov.br/sistema/detalhe-imovel.asp?hdnimovel=30'']"
proof -
  note t = coletarUrlsCidade_distinct [of pages_overlap]
  from t have d: "distinct (coletarUrlsCidade pages_overlap)"
    by (rule conjunct1)
  from t have "length (coletarUrlsCidade pages_overlap)
      = card (set (concat (map pageIds pages_overlap)))"
    by blast
  then have c: "card (set (concat (map pageIds pages_overlap))) = 3"
    by (simp add: coletar_overlap)
  have "length (concat (map pageIds pages_overlap)) = 4"
    by (simp add: pageIds_overlap)
  with d c show ?thesis
    by (simp add: coletar_overlap)
qed

section \<open>Properties of the spreadsheet writer\<close>

lemma replaceNewlines_no_nl: "10 \<notin> set (replaceNewlines s) \<and> 13 \<notin> set (replaceNewlines s)"
  by (induction s rule: replaceNewlines.induct) auto

lemma set_collapseRuns2: "set (collapseRuns2 s) \<subseteq> insert 32 (set s)"
proof (induction s rule: collapseRuns2.induct)
  case 1
  then show ?case by simp
next
  case (2 c r)
  show ?case
  proof (cases "isWhiteSpace c \<and> r \<noteq> [] \<and> isWhiteSpace (hd r)")
    case True
    with 2(1) have "set (collapseRuns2 (dropWhile isWhiteSpace r)) \<subseteq> insert 32 (set (dropWhile isWhiteSpace r))"
      by simp
    moreover have "set (dropWhile isWhiteSpace r) \<subseteq> set r"
      by (auto dest: set_dropWhileD)
    ultimately show ?thesis using True by auto
  next
    case False
    with 2(2) show ?thesis by auto
  qed
qed

lemma collapseRuns2_Nil: "collapseRuns2 s = [] \<longleftrightarrow> s = []"
  by (cases s) auto

lemma hd_collapseRuns2: "s \<noteq> [] \<Longrightarrow> \<not> isWhiteSpace (hd s) \<Longrightarrow> hd (collapseRuns2 s) = hd s"
  by (cases s) auto

lemma noDoubleSpace_collapseRuns2: "noDoubleSpace (collapseRuns2 s)"
proof (induction s rule: collapseRuns2.induct)
  case 1
  then show ?case by simp
next
  case (2 c r)
  show ?case
  proof (cases "isWhiteSpace c \<and> r \<noteq> [] \<and> isWhiteSpace (hd r)")
    case True
    let ?t = "dropWhile isWhiteSpace r"
    from True 2(1) have ih: "noDoubleSpace (collapseRuns2 ?t)" by simp
    have "collapseRuns2 ?t = [] \<or> \<not> isWhiteSpace (hd (collapseRuns2 ?t))"
    proof (cases "?t = []")
      case True
      then show ?thesis by (metis collapseRuns2.simps(1))
    next
      case False
      then have "\<not> isWhiteSpace (hd ?t)" by (rule hd_dropWhile)
      with False show ?thesis by (simp add: hd_collapseRuns2)
    qed
    with ih have "noDoubleSpace (32 # collapseRuns2 ?t)"
      by (subst noDoubleSpace_Cons) blast
    with True show ?thesis by simp
  next
    case False
    with 2(2) have ih: "noDoubleSpace (collapseRuns2 r)" by simp
    have "collapseRuns2 r = [] \<or> \<not> (isWhiteSpace c \<and> isWhiteSpace (hd (collapseRuns2 r)))"
    proof (cases "r = []")
      case True
      then show ?thesis by simp
    next
      case nonempty: False
      show ?thesis
      proof (cases "isWhiteSpace c")
        case True
        with False nonempty have "\<not> isWhiteSpace (hd r)" by simp
        with nonempty show ?thesis by (simp add: hd_collapseRuns2)
      next
        case False
        then show ?thesis by simp
      qed
    qed
    with ih have "noDoubleSpace (c # collapseRuns2 r)"
      by (subst noDoubleSpace_Cons) blast
    with False show ?thesis by auto
  qed
qed

lemma sanitized_sanitize: "sanitized (sanitize v)"
proof (cases v)
  case (Str s)
  let ?u = "collapseRuns2 (replaceNewlines s)"
  have "set (trim ?u) \<subseteq> insert 32 (set (replaceNewlines s))"
    using set_trim [of ?u] set_collapseRuns2 [of "replaceNewlines s"] by blast
  then have "10 \<notin> set (trim ?u) \<and> 13 \<notin> set (trim ?u)"
    using replaceNewlines_no_nl [of s] by auto
  moreover have "noDoubleSpace (trim ?u)"
    by (simp add: noDoubleSpace_trim noDoubleSpace_collapseRuns2)
  ultimately show ?thesis
    using Str by (simp add: sanitized_def sanitize_def trimmed_trim)
qed (simp_all add: sanitized_def sanitize_def trimmed_def)

lemma distinct_campos: "distinct campos"
  by (simp add: campos_def str_def)

lemma map_of_graph: "c \<in> set ks \<Longrightarrow> map_of (map (\<lambda>k. (k, f k)) ks) c = Some (f c)"
  by (induction ks) auto

lemma map_of_mkRow: "c \<in> set campos \<Longrightarrow> map_of (mkRow d) c = Some (sanitize (d c))"
  unfolding mkRow_def by (rule map_of_graph)

lemma sheet_line: "map (\<lambda>h. case map_of (mkRow d) h of None \<Rightarrow> [] | Some v \<Rightarrow> v) campos
    = map (\<lambda>c. sanitize (d c)) campos"
  by (rule map_cong) (simp_all add: map_of_mkRow)

lemma isWhiteSpace_nl: "isWhiteSpace 10" "isWhiteSpace 13" "isWhiteSpace 32"
  by (simp_all add: isWhiteSpace_def)

lemma replaceNewlines_Cons_other:
  "c \<noteq> 10 \<Longrightarrow> c \<noteq> 13 \<Longrightarrow> replaceNewlines (c # r) = c # replaceNewlines r"
  by (cases r) simp_all

lemma replaceNewlines_word:
  "\<forall>c \<in> set w. \<not> isWhiteSpace c \<Longrightarrow> replaceNewlines (w @ r) = w @ replaceNewlines r"
proof (induction w)
  case Nil
  then show ?case by simp
next
  case (Cons c w)
  then have "c \<noteq> 10" "c \<noteq> 13" using isWhiteSpace_nl by auto
  with Cons show ?case by (simp add: replaceNewlines_Cons_other)
qed

lemma replaceNewlines_append:
  "r = [] \<or> hd r \<noteq> 10 \<Longrightarrow> replaceNewlines (xs @ r) = replaceNewlines xs @ replaceNewlines r"
proof (induction xs rule: replaceNewlines.induct)
  case 1
  then show ?case by simp
next
  case (2 c)
  then show ?case by (cases r) auto
next
  case (3 c d xs)
  then show ?case by auto
qed

lemma replaceNewlines_ws: "\<forall>c \<in> set xs. isWhiteSpace c \<Longrightarrow> \<forall>c \<in> set (replaceNewlines xs). isWhiteSpace c"
  by (induction xs rule: replaceNewlines.induct) (auto simp: isWhiteSpace_nl)

lemma replaceNewlines_Nil: "replaceNewlines xs = [] \<longleftrightarrow> xs = []"
  by (induction xs rule: replaceNewlines.induct) auto

lemma replaceNewlines_hd:
  "r \<noteq> [] \<Longrightarrow> \<not> isWhiteSpace (hd r) \<Longrightarrow> replaceNewlines r \<noteq> [] \<and> hd (replaceNewlines r) = hd r"
proof -
  assume "r \<noteq> []" "\<not> isWhiteSpace (hd r)"
  then obtain c r' where r: "r = c # r'" and "\<not> isWhiteSpace c" by (cases r) auto
  then have "c \<noteq> 10" "c \<noteq> 13" using isWhiteSpace_nl by auto
  with r show ?thesis by (simp add: replaceNewlines_Cons_other)
qed

lemma replaceNewlines_run:
  assumes "run \<noteq> []"
  shows "(length (replaceNewlines run) = 1 \<and> separator run = replaceNewlines run) \<or>
         (2 \<le> length (replaceNewlines run) \<and> separator run = [32])"
proof (cases run)
  case Nil
  with assms show ?thesis by simp
next
  case (Cons a r1)
  show ?thesis
  proof (cases r1)
    case Nil
    with Cons show ?thesis by (auto simp: separator_def)
  next
    case c2: (Cons b r2)
    show ?thesis
    proof (cases "a = 13 \<and> b = 10")
      case True
      show ?thesis
      proof (cases r2)
        case Nil
        with Cons c2 True show ?thesis by (simp add: separator_def)
      next
        case c3: (Cons c r3)
        then have "replaceNewlines r2 \<noteq> []" by (simp add: replaceNewlines_Nil)
        then have "1 \<le> length (replaceNewlines r2)" by (cases "replaceNewlines r2") auto
        with Cons c2 True c3 show ?thesis by (simp add: separator_def)
      qed
    next
      case False
      have "replaceNewlines (b # r2) \<noteq> []" by (simp add: replaceNewlines_Nil)
      then have "1 \<le> length (replaceNewlines (b # r2))"
        by (cases "replaceNewlines (b # r2)") auto
      with Cons c2 False show ?thesis by (auto simp: separator_def)
    qed
  qed
qed

lemma collapseRuns2_word:
  "\<forall>c \<in> set w. \<not> isWhiteSpace c \<Longrightarrow> collapseRuns2 (w @ r) = w @ collapseRuns2 r"
  by (induction w) auto

lemma dropWhile_run:
  "\<forall>c \<in> set xs. isWhiteSpace c \<Longrightarrow> y = [] \<or> \<not> isWhiteSpace (hd y) \<Longrightarrow>
   dropWhile isWhiteSpace (xs @ y) = y"
  by (induction xs) (auto simp: dropWhile_eq_self_iff)

lemma collapseRuns2_run:
  assumes "\<forall>c \<in> set xs. isWhiteSpace c" "y = [] \<or> \<not> isWhiteSpace (hd y)"
  shows "length xs = 1 \<Longrightarrow> collapseRuns2 (xs @ y) = xs @ collapseRuns2 y"
    and "2 \<le> length xs \<Longrightarrow> collapseRuns2 (xs @ y) = 32 # collapseRuns2 y"
proof -
  assume "length xs = 1"
  then obtain a where "xs = [a]" by (cases xs) auto
  with assms(2) show "collapseRuns2 (xs @ y) = xs @ collapseRuns2 y"
    by (cases y) auto
next
  assume "2 \<le> length xs"
  then obtain a b r where x: "xs = a # b # r" by (cases xs; cases "tl xs") auto
  with assms(1) have "\<forall>c \<in> set (b # r). isWhiteSpace c" by simp
  from dropWhile_run [OF this assms(2)] x assms(1)
  show "collapseRuns2 (xs @ y) = 32 # collapseRuns2 y" by simp
qed

lemma passes_word:
  "\<forall>c \<in> set w. \<not> isWhiteSpace c \<Longrightarrow> passes (w @ r) = w @ passes r"
  by (simp add: passes_def replaceNewlines_word collapseRuns2_word)

lemma passes_run:
  assumes "run \<noteq> []" "\<forall>c \<in> set run. isWhiteSpace c" "rest = [] \<or> \<not> isWhiteSpace (hd rest)"
  shows "passes (run @ rest) = separator run @ passes rest"
proof -
  from assms(3) have "rest = [] \<or> hd rest \<noteq> 10" using isWhiteSpace_nl by auto
  then have a: "replaceNewlines (run @ rest) = replaceNewlines run @ replaceNewlines rest"
    by (rule replaceNewlines_append)
  have w: "\<forall>c \<in> set (replaceNewlines run). isWhiteSpace c"
    using assms(2) by (rule replaceNewlines_ws)
  have y: "replaceNewlines rest = [] \<or> \<not> isWhiteSpace (hd (replaceNewlines rest))"
  proof (cases "rest = []")
    case True
    then show ?thesis by simp
  next
    case False
    with assms(3) have "\<not> isWhiteSpace (hd rest)" by simp
    with False replaceNewlines_hd [of rest] show ?thesis by simp
  qed
  from replaceNewlines_run [OF assms(1)] show ?thesis
  proof
    assume "length (replaceNewlines run) = 1 \<and> separator run = replaceNewlines run"
    with collapseRuns2_run(1) [OF w y] show ?thesis by (simp add: passes_def a)
  next
    assume "2 \<le> length (replaceNewlines run) \<and> separator run = [32]"
    with collapseRuns2_run(2) [OF w y] show ?thesis by (simp add: passes_def a)
  qed
qed

lemma passes_Nil: "passes [] = []"
  by (simp add: passes_def)

lemma separator_ws: "\<forall>c \<in> set run. isWhiteSpace c \<Longrightarrow> \<forall>c \<in> set (separator run). isWhiteSpace c"
  by (auto simp: separator_def isWhiteSpace_nl)

lemma separator_not_Nil: "run \<noteq> [] \<Longrightarrow> separator run \<noteq> []"
  by (auto simp: separator_def)

lemma trimEnd_append_keep:
  "y \<noteq> [] \<Longrightarrow> \<not> isWhiteSpace (last y) \<Longrightarrow> trimEnd (x @ y) = x @ y"
proof -
  assume "y \<noteq> []" "\<not> isWhiteSpace (last y)"
  then have "rev (x @ y) \<noteq> [] \<and> \<not> isWhiteSpace (hd (rev (x @ y)))"
    by (simp add: hd_rev)
  then have "dropWhile isWhiteSpace (rev (x @ y)) = rev (x @ y)"
    by (cases "rev (x @ y)") auto
  then show ?thesis by (simp add: trimEnd_def)
qed

lemma trimEnd_append_ws:
  "\<forall>c \<in> set y. isWhiteSpace c \<Longrightarrow> trimEnd (x @ y) = trimEnd x"
proof -
  assume "\<forall>c \<in> set y. isWhiteSpace c"
  then have "\<forall>c \<in> set (rev y). isWhiteSpace c" by simp
  then have "dropWhile isWhiteSpace (rev y @ rev x) = dropWhile isWhiteSpace (rev x)"
    by (simp add: dropWhile_append)
  then show ?thesis by (simp add: trimEnd_def)
qed

lemma trimEnd_word:
  "w \<noteq> [] \<Longrightarrow> \<forall>c \<in> set w. \<not> isWhiteSpace c \<Longrightarrow> trimEnd w = w"
  using trimEnd_append_keep [of w "[]"] by simp

lemma trimEnd_append_nonempty:
  assumes "trimEnd y \<noteq> []"
  shows "trimEnd (x @ y) = x @ trimEnd y"
proof -
  from assms have "dropWhile isWhiteSpace (rev y) \<noteq> []"
    by (simp add: trimEnd_def)
  then obtain z where "z \<in> set (rev y)" "\<not> isWhiteSpace z"
    by (auto simp del: set_rev)
  then have "dropWhile isWhiteSpace (rev y @ rev x) = dropWhile isWhiteSpace (rev y) @ rev x"
    by (rule dropWhile_append1)
  then show ?thesis by (simp add: trimEnd_def)
qed

lemma words_spec_eq:
  assumes "s = [] \<or> \<not> isWhiteSpace (hd s)"
  shows "trimEnd (passes s) = words_spec s \<and> (s \<noteq> [] \<longrightarrow> words_spec s \<noteq> [])"
  using assms
proof (induction s rule: words_spec.induct)
  case (1 s)
  define w where "w = takeWhile (\<lambda>c. \<not> isWhiteSpace c) s"
  define t where "t = dropWhile (\<lambda>c. \<not> isWhiteSpace c) s"
  define run where "run = takeWhile isWhiteSpace t"
  define rest where "rest = dropWhile isWhiteSpace t"
  have s: "s = w @ t" by (simp add: w_def t_def)
  have tr: "t = run @ rest" by (simp add: run_def rest_def)
  have ww: "\<forall>c \<in> set w. \<not> isWhiteSpace c"
    unfolding w_def by (auto dest: set_takeWhileD)
  have rw: "\<forall>c \<in> set run. isWhiteSpace c"
    unfolding run_def by (auto dest: set_takeWhileD)
  have rn: "rest = [] \<or> \<not> isWhiteSpace (hd rest)"
    unfolding rest_def using hd_dropWhile [of isWhiteSpace t] by auto
  have wne: "s \<noteq> [] \<Longrightarrow> w \<noteq> []"
    using "1.prems" by (cases s) (auto simp: w_def)
  have unf: "words_spec s = (if rest = [] then w else w @ separator run @ words_spec rest)"
    unfolding w_def t_def run_def rest_def
    by (rule trans [OF words_spec.simps]) (simp only: Let_def)
  show ?case
  proof (cases "rest = []")
    case True
    from s tr True have "s = w @ run" by simp
    then have "passes s = w @ passes run"
      by (simp only: passes_word [OF ww])
    moreover have "passes run = (if run = [] then [] else separator run)"
      using passes_run [of run "[]"] rw by (auto simp: passes_Nil)
    moreover have "\<forall>c \<in> set (if run = [] then [] else separator run). isWhiteSpace c"
      using separator_ws [OF rw] by simp
    ultimately have "trimEnd (passes s) = trimEnd w"
      by (simp only: trimEnd_append_ws)
    moreover have "trimEnd w = w"
    proof (cases "w = []")
      case True
      then show ?thesis by (simp add: trimEnd_def)
    next
      case False
      then show ?thesis using ww by (rule trimEnd_word)
    qed
    ultimately show ?thesis using True unf wne by simp
  next
    case False
    then have tne: "t \<noteq> []" using tr by auto
    have "run \<noteq> []"
    proof
      assume "run = []"
      with tr have "t = rest" by simp
      moreover have "isWhiteSpace (hd t)"
        using tne hd_dropWhile [of "\<lambda>c. \<not> isWhiteSpace c" s] by (simp add: t_def)
      ultimately show False using rn False by simp
    qed
    from rn False have r1: "rest = [] \<or> \<not> isWhiteSpace (hd rest)" by simp
    from "1.IH" [OF w_def t_def run_def rest_def False r1] False
    have ih: "trimEnd (passes rest) = words_spec rest" and ne: "words_spec rest \<noteq> []"
      by simp_all
    from s tr have "s = w @ run @ rest" by simp
    then have "passes s = w @ passes (run @ rest)"
      by (simp only: passes_word [OF ww])
    then have "passes s = w @ separator run @ passes rest"
      by (simp only: passes_run [OF \<open>run \<noteq> []\<close> rw rn])
    then have "trimEnd (passes s) = (w @ separator run) @ trimEnd (passes rest)"
      using trimEnd_append_nonempty [of "passes rest" "w @ separator run"] ih ne by simp
    with ih unf False ne show ?thesis by simp
  qed
qed

lemma trimStart_passes:
  "trimStart (passes s) = passes (dropWhile isWhiteSpace s)"
proof -
  define run where "run = takeWhile isWhiteSpace s"
  define rest where "rest = dropWhile isWhiteSpace s"
  have s: "s = run @ rest" by (simp add: run_def rest_def)
  have rw: "\<forall>c \<in> set run. isWhiteSpace c"
    unfolding run_def by (auto dest: set_takeWhileD)
  have rn: "rest = [] \<or> \<not> isWhiteSpace (hd rest)"
    unfolding rest_def using hd_dropWhile [of isWhiteSpace s] by auto
  have pr: "passes rest = [] \<or> \<not> isWhiteSpace (hd (passes rest))"
  proof (cases rest)
    case Nil
    then show ?thesis by (simp add: passes_Nil)
  next
    case (Cons c r)
    with rn have "\<not> isWhiteSpace c" by simp
    with Cons passes_word [of "[c]" r] show ?thesis by simp
  qed
  then have d: "dropWhile isWhiteSpace (passes rest) = passes rest"
    by (cases "passes rest") auto
  show ?thesis
  proof (cases "run = []")
    case True
    with s d show ?thesis by (simp add: trimStart_def rest_def)
  next
    case False
    from passes_run [OF False rw rn] have "passes s = separator run @ passes rest"
      by (simp add: s)
    moreover have "dropWhile isWhiteSpace (separator run @ passes rest) = passes rest"
      using separator_ws [OF rw] pr by (intro dropWhile_run) simp_all
    ultimately show ?thesis by (simp add: trimStart_def rest_def)
  qed
qed

lemma sanitize_refines: "sanitize v = sanitize_spec v"
proof (cases v)
  case (Str s)
  have n: "dropWhile isWhiteSpace s = [] \<or> \<not> isWhiteSpace (hd (dropWhile isWhiteSpace s))"
    using hd_dropWhile [of isWhiteSpace s] by auto
  have "sanitize v = trimEnd (trimStart (passes s))"
    by (simp add: Str sanitize_def trim_def passes_def)
  also have "\<dots> = trimEnd (passes (dropWhile isWhiteSpace s))"
    by (simp only: trimStart_passes)
  also have "\<dots> = words_spec (dropWhile isWhiteSpace s)"
    using words_spec_eq [OF n] by simp
  finally show ?thesis by (simp add: Str sanitize_spec_def)
qed (simp_all add: sanitize_def sanitize_spec_def)


lemma replaceNewlines_id: "10 \<notin> set s \<Longrightarrow> 13 \<notin> set s \<Longrightarrow> replaceNewlines s = s"
  by (induction s rule: replaceNewlines.induct) auto

lemma collapseRuns2_id: "noDoubleSpace s \<Longrightarrow> collapseRuns2 s = s"
proof (induction s rule: collapseRuns2.induct)
  case 1
  then show ?case by simp
next
  case (2 c r)
  from 2(3) have nd: "noDoubleSpace r" and adj: "r = [] \<or> \<not> (isWhiteSpace c \<and> isWhiteSpace (hd r))"
    by (simp_all add: noDoubleSpace_Cons)
  from adj have f: "\<not> (isWhiteSpace c \<and> r \<noteq> [] \<and> isWhiteSpace (hd r))" by auto
  with 2(2) nd have "collapseRuns2 r = r" by simp
  with f show ?case by auto
qed

lemma sanitize_fixed: "sanitized s \<Longrightarrow> sanitize (Str s) = s"
  by (simp add: sanitized_def sanitize_def replaceNewlines_id collapseRuns2_id trim_id)

text \<open>
  Claim C8. For every list of extracted records, whatever properties each record has:
  every row built by \<^verbatim>\<open>salvarComoXlsx\<close> has exactly the 43 keys of \<^verbatim>\<open>campos\<close>, each
  once and in the declared order. The value under a key is \<^verbatim>\<open>sanitize\<close> of the record's
  property, and that is the cell the claim describes (\<open>sanitize_spec\<close>): the words of the
  value in their order, nothing before the first and after the last, and between two
  words one space where the value has a line break or two or more whitespace characters
  (its single whitespace character otherwise); a missing or \<^verbatim>\<open>null\<close> property gives the
  empty string. So a cell holds no CR or LF, no two adjacent whitespace characters and
  no leading or trailing whitespace, and a value that is already of this form is written
  unchanged. The sheet is the header line followed by one line per record with the cells
  in header order.
\<close>

theorem salvarComoXlsx_schema:
  "length (salvarComoXlsx_rows detalhes) = length detalhes \<and>
   (\<forall>r \<in> set (salvarComoXlsx_rows detalhes).
      map fst r = campos \<and> (\<forall>v \<in> set (map snd r). sanitized v)) \<and>
   (\<forall>i < length detalhes. \<forall>c \<in> set campos.
      map_of (salvarComoXlsx_rows detalhes ! i) c = Some (sanitize ((detalhes ! i) c)) \<and>
      map_of (salvarComoXlsx_rows detalhes ! i) c = Some (sanitize_spec ((detalhes ! i) c))) \<and>
   salvarComoXlsx detalhes = campos # map (\<lambda>d. map (\<lambda>c. sanitize (d c)) campos) detalhes \<and>
   salvarComoXlsx detalhes = campos # map (\<lambda>d. map (\<lambda>c. sanitize_spec (d c)) campos) detalhes \<and>
   sanitize Undefined = [] \<and> sanitize Null = [] \<and>
   sanitize (Str s) = trim (collapseRuns2 (replaceNewlines s)) \<and>
   sanitize v = sanitize_spec v \<and>
   (sanitized s \<longrightarrow> sanitize_spec (Str s) = s) \<and>
   length campos = 43 \<and> distinct campos"
proof -
  have eq: "sanitize = sanitize_spec"
    by (rule ext) (rule sanitize_refines)
  have a: "length (salvarComoXlsx_rows detalhes) = length detalhes"
    by (simp add: salvarComoXlsx_rows_def)
  have b: "\<forall>r \<in> set (salvarComoXlsx_rows detalhes).
      map fst r = campos \<and> (\<forall>v \<in> set (map snd r). sanitized v)"
    by (auto simp: salvarComoXlsx_rows_def mkRow_def comp_def sanitized_sanitize)
  have c: "\<forall>i < length detalhes. \<forall>c \<in> set campos.
      map_of (salvarComoXlsx_rows detalhes ! i) c = Some (sanitize ((detalhes ! i) c)) \<and>
      map_of (salvarComoXlsx_rows detalhes ! i) c = Some (sanitize_spec ((detalhes ! i) c))"
    by (simp add: salvarComoXlsx_rows_def map_of_mkRow sanitize_refines)
  have d: "salvarComoXlsx detalhes
      = campos # map (\<lambda>d. map (\<lambda>c. sanitize (d c)) campos) detalhes"
    by (simp add: salvarComoXlsx_def json_to_sheet_def salvarComoXlsx_rows_def comp_def sheet_line)
  then have d': "salvarComoXlsx detalhes
      = campos # map (\<lambda>d. map (\<lambda>c. sanitize_spec (d c)) campos) detalhes"
    by (simp only: eq)
  have e: "sanitize Undefined = [] \<and> sanitize Null = []"
    by (simp add: sanitize_def)
  have f: "sanitize (Str s) = trim (collapseRuns2 (replaceNewlines s))"
    by (simp add: sanitize_def)
  have g: "sanitized s \<longrightarrow> sanitize_spec (Str s) = s"
    using sanitize_fixed [of s] by (simp add: sanitize_refines)
  have h: "length campos = 43"
    by (simp add: campos_def)
  show ?thesis
    using a b c d d' e f sanitize_refines [of v] g h distinct_campos
    by (intro conjI) (erule conjunct1 conjunct2 | assumption)+
qed

theorem salvarComoXlsx_schema_witness:
  "map fst (mkRow det_titulo) = campos \<and>
   map_of (mkRow det_titulo) (str ''_imoveis_titulo'') = Some (str ''Casa A'') \<and>
   map_of (mkRow det_titulo) (str ''_imoveis_descricao'') = Some (str ''a'' @ [9] @ str ''b c'') \<and>
   map_of (mkRow det_titulo) (str ''_imoveis_cep'') = Some [] \<and>
   map_of (mkRow det_titulo) (str ''_imoveis_bairro'') = Some [] \<and>
   sanitize_spec (Str (str ''Casa'' @ [13, 10, 32, 32] @ str ''A '')) = str ''Casa A'' \<and>
   sanitize_spec (Str (str ''Casa A'')) = str ''Casa A''"
proof -
  note t = salvarComoXlsx_schema [of "[det_titulo]" "str ''Casa A''" "Str (str ''Casa'' @ [13, 10, 32, 32] @ str ''A '')"]
  have mem: "mkRow det_titulo \<in> set (salvarComoXlsx_rows [det_titulo])"
    by (simp add: salvarComoXlsx_rows_def)
  from t have "\<forall>r \<in> set (salvarComoXlsx_rows [det_titulo]).
      map fst r = campos \<and> (\<forall>v \<in> set (map snd r). sanitized v)"
    by (elim conjE)
  with mem have r: "map fst (mkRow det_titulo) = campos"
    by blast
  from t have "\<forall>i < length [det_titulo]. \<forall>c \<in> set campos.
      map_of (salvarComoXlsx_rows [det_titulo] ! i) c = Some (sanitize (([det_titulo] ! i) c)) \<and>
      map_of (salvarComoXlsx_rows [det_titulo] ! i) c = Some (sanitize_spec (([det_titulo] ! i) c))"
    by (elim conjE)
  then have cells: "\<forall>c \<in> set campos. map_of (mkRow det_titulo) c = Some (sanitize (det_titulo c))"
    by (simp add: salvarComoXlsx_rows_def)
  have k: "str ''_imoveis_titulo'' \<in> set campos" "str ''_imoveis_descricao'' \<in> set campos"
    "str ''_imoveis_cep'' \<in> set campos" "str ''_imoveis_bairro'' \<in> set campos"
    by (simp_all add: campos_def)
  have v1: "sanitize (det_titulo (str ''_imoveis_titulo'')) = str ''Casa A''"
    by (simp add: det_titulo_def sanitize_def str_def trim_def trimStart_def trimEnd_def
        isWhiteSpace_def)
  have v2: "sanitize (det_titulo (str ''_imoveis_descricao'')) = str ''a'' @ [9] @ str ''b c''"
    by (simp add: det_titulo_def sanitize_def str_def trim_def trimStart_def trimEnd_def
        isWhiteSpace_def)
  have v3: "sanitize (det_titulo (str ''_imoveis_cep'')) = []"
    by (simp add: det_titulo_def sanitize_def str_def)
  have v4: "sanitize (det_titulo (str ''_imoveis_bairro'')) = []"
    by (simp add: det_titulo_def sanitize_def str_def)
  from cells k v1 v2 v3 v4 have c: "map_of (mkRow det_titulo) (str ''_imoveis_titulo'') = Some (str ''Casa A'') \<and>
      map_of (mkRow det_titulo) (str ''_imoveis_descricao'') = Some (str ''a'' @ [9] @ str ''b c'') \<and>
      map_of (mkRow det_titulo) (str ''_imoveis_cep'') = Some [] \<and>
      map_of (mkRow det_titulo) (str ''_imoveis_bairro'') = Some []"
    by (simp only: simp_thms)
  from t have "sanitize (Str (str ''Casa'' @ [13, 10, 32, 32] @ str ''A ''))
      = sanitize_spec (Str (str ''Casa'' @ [13, 10, 32, 32] @ str ''A ''))"
    by (elim conjE)
  moreover have "sanitize (Str (str ''Casa'' @ [13, 10, 32, 32] @ str ''A '')) = str ''Casa A''"
    by (simp add: sanitize_def str_def trim_def trimStart_def trimEnd_def isWhiteSpace_def)
  ultimately have s1: "sanitize_spec (Str (str ''Casa'' @ [13, 10, 32, 32] @ str ''A '')) = str ''Casa A''"
    by simp
  have "sanitized (str ''Casa A'')"
    by (simp add: sanitized_def trimmed_def str_def isWhiteSpace_def)
  moreover from t have "sanitized (str ''Casa A'') \<longrightarrow> sanitize_spec (Str (str ''Casa A'')) = str ''Casa A''"
    by (elim conjE)
  ultimately have s2: "sanitize_spec (Str (str ''Casa A'')) = str ''Casa A''"
    by blast
  from r c s1 s2 show ?thesis by blast
qed

section \<open>Properties of the sync forwarder\<close>




end
